theory Spec2Isabelle
  imports Complex_Main "HOL-Library.AList"
begin

section \<open>Data model of copy_field_to_table_rows.py\<close>

text \<open>
  The module works on JSON-shaped Python dictionaries. A dictionary whose keys are known
  is a record with one optional field per key: \<open>None\<close> is "key absent", so \<open>d.get(k)\<close>
  and \<open>k in d\<close> are both readable. The records list every key the module reads or
  writes. Documents are trees (they come from a JSON input), so no two places of a
  document hold the same dictionary object and in-place mutation is a functional update.

  The values of a cell's \<open>row\<close> and \<open>col\<close> keys are the ones the module orders with \<open>x > 0\<close>
  and \<open>max\<close>; they are kept dynamically typed, so that a malformed record (a string or
  \<open>None\<close> where an integer belongs) raises \<open>TypeError\<close> as it does in Python.
\<close>

datatype scalar = SNone | SInt int | SStr string

datatype exn = KeyError | TypeError

datatype 'a outcome = Returned 'a | Raised exn

record cell =
  cell_id :: "string option"
  cell_row :: "scalar option"
  cell_col :: "scalar option"
  cell_row_span :: "int option"
  cell_col_span :: "int option"
  cell_label :: "string option"
  cell_xmin :: "int option"
  cell_ymin :: "int option"
  cell_xmax :: "int option"
  cell_ymax :: "int option"
  cell_score :: "real option"
  cell_text :: "string option"
  cell_row_label :: "string option"
  cell_verification_status :: "string option"
  cell_status :: "string option"
  cell_failed_validation :: "string option"
  cell_label_id :: "string option"
  cell_lookup_edited :: "bool option"

record box =
  box_id :: "string option"
  box_label :: "string option"
  box_xmin :: "int option"
  box_ymin :: "int option"
  box_xmax :: "int option"
  box_ymax :: "int option"
  box_score :: "real option"
  box_ocr_text :: "string option"
  box_status :: "string option"
  box_type :: "string option"
  box_cells :: "cell list option"

record document =
  moderated_boxes :: "box list option"
  predicted_boxes :: "box list option"

text \<open>
  \<open>time.time()\<close> is an input of the program: \<open>clk k\<close> is the text of the \<open>k\<close>-th reading
  of the clock, and every function that may read the clock takes the number of readings
  made so far and returns the new number.
\<close>

type_synonym clock = "nat \<Rightarrow> string"

text \<open>A reference to an element: the list that holds it and its position there.\<close>

datatype which = Moderated | Predicted

type_synonym box_ref = "which \<times> nat"

section \<open>Python primitives\<close>

text \<open>\<open>bool(d.get(k))\<close> for a list-valued key: false when absent or empty.\<close>

definition truthy :: "'a list option \<Rightarrow> bool" where
  "truthy v = (case v of None \<Rightarrow> False | Some xs \<Rightarrow> xs \<noteq> [])"

text \<open>\<open>d.get(k, [])\<close>.\<close>

definition get_list :: "'a list option \<Rightarrow> 'a list" where
  "get_list v = (case v of None \<Rightarrow> [] | Some xs \<Rightarrow> xs)"

text \<open>\<open>cell.get("row")\<close>: \<open>None\<close> when the key is absent.\<close>

definition get_row :: "cell \<Rightarrow> scalar" where
  "get_row c = (case cell_row c of None \<Rightarrow> SNone | Some v \<Rightarrow> v)"

text \<open>\<open>cell.get("row", 0)\<close> and \<open>cell.get("col", 0)\<close>.\<close>

definition get_row0 :: "cell \<Rightarrow> scalar" where
  "get_row0 c = (case cell_row c of None \<Rightarrow> SInt 0 | Some v \<Rightarrow> v)"

definition get_col0 :: "cell \<Rightarrow> scalar" where
  "get_col0 c = (case cell_col c of None \<Rightarrow> SInt 0 | Some v \<Rightarrow> v)"

text \<open>\<open>x > 0\<close>: defined on integers only.\<close>

fun py_gt0 :: "scalar \<Rightarrow> exn + bool" where
  "py_gt0 (SInt i) = Inr (i > 0)"
| "py_gt0 SNone = Inl TypeError"
| "py_gt0 (SStr s) = Inl TypeError"

text \<open>\<open>max(max_col, x)\<close> with an integer \<open>max_col\<close>.\<close>

fun py_max :: "int \<Rightarrow> scalar \<Rightarrow> exn + int" where
  "py_max m (SInt i) = Inr (max m i)"
| "py_max m SNone = Inl TypeError"
| "py_max m (SStr s) = Inl TypeError"

text \<open>\<open>str(x)\<close>, as an f-string renders a value.\<close>

fun str_nat :: "nat \<Rightarrow> string" where
  "str_nat n = (if n < 10 then [''0123456789'' ! n]
                else str_nat (n div 10) @ [''0123456789'' ! (n mod 10)])"

definition str_int :: "int \<Rightarrow> string" where
  "str_int i = (if i < 0 then ''-'' @ str_nat (nat (- i)) else str_nat (nat i))"

fun str_scalar :: "scalar \<Rightarrow> string" where
  "str_scalar SNone = ''None''"
| "str_scalar (SInt i) = str_int i"
| "str_scalar (SStr s) = s"

text \<open>The first element of a list that satisfies a test, with its position.\<close>

fun find_first :: "('a \<Rightarrow> bool) \<Rightarrow> 'a list \<Rightarrow> (nat \<times> 'a) option" where
  "find_first P [] = None"
| "find_first P (x # xs) =
     (if P x then Some (0, x) else map_option (\<lambda>(i, y). (Suc i, y)) (find_first P xs))"

text \<open>A dictionary with no key at all is falsy.\<close>

definition empty_box :: box where
  "empty_box = \<lparr>box_id = None, box_label = None, box_xmin = None, box_ymin = None,
     box_xmax = None, box_ymax = None, box_score = None, box_ocr_text = None,
     box_status = None, box_type = None, box_cells = None\<rparr>"

section \<open>The module\<close>

subsection \<open>The authoritative list\<close>

text \<open>
  \<open>boxes = document.get("moderated_boxes", []) if document.get("moderated_boxes")
  else document.get("predicted_boxes", [])\<close>
\<close>

definition select_boxes :: "document \<Rightarrow> box list" where
  "select_boxes document =
     (if truthy (moderated_boxes document) then get_list (moderated_boxes document)
      else get_list (predicted_boxes document))"

definition active :: "document \<Rightarrow> which" where
  "active document = (if truthy (moderated_boxes document) then Moderated else Predicted)"

text \<open>Assignment through a reference to an element.\<close>

fun put_box :: "box_ref \<Rightarrow> box \<Rightarrow> document \<Rightarrow> document" where
  "put_box (Moderated, i) b document =
     document\<lparr>moderated_boxes := map_option (\<lambda>bs. bs[i := b]) (moderated_boxes document)\<rparr>"
| "put_box (Predicted, i) b document =
     document\<lparr>predicted_boxes := map_option (\<lambda>bs. bs[i := b]) (predicted_boxes document)\<rparr>"

subsection \<open>get_field_value\<close>

definition is_field :: "string \<Rightarrow> box \<Rightarrow> bool" where
  "is_field field_label b \<longleftrightarrow> box_type b = Some ''field'' \<and> box_label b = Some field_label"

definition get_field_value :: "document \<Rightarrow> string \<Rightarrow> string" where
  "get_field_value document field_label =
     (case find_first (is_field field_label) (select_boxes document) of
        Some (i, b) \<Rightarrow> (case box_ocr_text b of None \<Rightarrow> '''' | Some s \<Rightarrow> s)
      | None \<Rightarrow> '''')"

subsection \<open>find_or_create_table\<close>

definition is_table :: "box \<Rightarrow> bool" where
  "is_table b \<longleftrightarrow> box_type b = Some ''table''"

definition new_table :: "string \<Rightarrow> box" where
  "new_table now =
     \<lparr>box_id = Some (''generated-table-'' @ now), box_label = Some ''table'',
      box_xmin = Some 0, box_ymin = Some 0, box_xmax = Some 0, box_ymax = Some 0,
      box_score = Some 1, box_ocr_text = Some ''table'',
      box_status = Some ''correctly_predicted'', box_type = Some ''table'',
      box_cells = Some []\<rparr>"

text \<open>
  Returns the table together with the reference to it. The new table is built, and the
  clock read, before the list to append to is looked up; \<open>document["predicted_boxes"]\<close>
  raises \<open>KeyError\<close> when that key is absent.
\<close>

definition find_or_create_table ::
  "clock \<Rightarrow> document \<Rightarrow> nat \<Rightarrow> (box_ref \<times> box) outcome \<times> document \<times> nat" where
  "find_or_create_table clk document n =
     (case find_first is_table (select_boxes document) of
        Some (i, b) \<Rightarrow> (Returned ((active document, i), b), document, n)
      | None \<Rightarrow>
          (let t = new_table (clk n) in
           if truthy (moderated_boxes document) then
             (Returned ((Moderated, length (get_list (moderated_boxes document))), t),
              document\<lparr>moderated_boxes := Some (get_list (moderated_boxes document) @ [t])\<rparr>,
              Suc n)
           else
             (case predicted_boxes document of
                None \<Rightarrow> (Raised KeyError, document, Suc n)
              | Some pb \<Rightarrow>
                  (Returned ((Predicted, length pb), t),
                   document\<lparr>predicted_boxes := Some (pb @ [t])\<rparr>, Suc n))))"

subsection \<open>set_cell_value\<close>

definition matches :: "scalar \<Rightarrow> string \<Rightarrow> cell \<Rightarrow> bool" where
  "matches row_idx label c \<longleftrightarrow> get_row c = row_idx \<and> cell_label c = Some label"

text \<open>The second loop: \<open>max_col\<close> over the cells of the row.\<close>

fun max_col_loop :: "cell list \<Rightarrow> scalar \<Rightarrow> int \<Rightarrow> exn + int" where
  "max_col_loop [] row_idx max_col = Inr max_col"
| "max_col_loop (c # cs) row_idx max_col =
     (if get_row c = row_idx then
        (case py_max max_col (get_col0 c) of
           Inl e \<Rightarrow> Inl e
         | Inr m \<Rightarrow> max_col_loop cs row_idx m)
      else max_col_loop cs row_idx max_col)"

definition new_cell :: "string \<Rightarrow> scalar \<Rightarrow> int \<Rightarrow> string \<Rightarrow> string \<Rightarrow> cell" where
  "new_cell label row_idx max_col v now =
     \<lparr>cell_id = Some (''generated-cell-'' @ label @ ''-'' @ str_scalar row_idx @ ''-'' @ now),
      cell_row = Some row_idx, cell_col = Some (SInt (max_col + 1)),
      cell_row_span = Some 0, cell_col_span = Some 0, cell_label = Some label,
      cell_xmin = Some 0, cell_ymin = Some 0, cell_xmax = Some 0, cell_ymax = Some 0,
      cell_score = Some 1, cell_text = Some v, cell_row_label = Some '''',
      cell_verification_status = Some ''correctly_predicted'', cell_status = Some '''',
      cell_failed_validation = Some '''', cell_label_id = Some '''',
      cell_lookup_edited = Some False\<rparr>"

definition set_cell_value ::
  "clock \<Rightarrow> document \<Rightarrow> scalar \<Rightarrow> string \<Rightarrow> string \<Rightarrow> nat \<Rightarrow> bool outcome \<times> document \<times> nat"
  where
  "set_cell_value clk document row_idx label v n =
     (case find_or_create_table clk document n of
        (Raised e, d1, n1) \<Rightarrow> (Raised e, d1, n1)
      | (Returned (r, t), d1, n1) \<Rightarrow>
          (case find_first (matches row_idx label) (get_list (box_cells t)) of
             Some (j, c) \<Rightarrow>
               (Returned True,
                put_box r (t\<lparr>box_cells :=
                  Some ((get_list (box_cells t))[j := c\<lparr>cell_text := Some v\<rparr>])\<rparr>) d1,
                n1)
           | None \<Rightarrow>
               (case max_col_loop (get_list (box_cells t)) row_idx 0 of
                  Inl e \<Rightarrow> (Raised e, d1, n1)
                | Inr max_col \<Rightarrow>
                    (Returned True,
                     put_box r (t\<lparr>box_cells :=
                       Some (get_list (box_cells t)
                             @ [new_cell label row_idx max_col v (clk n1)])\<rparr>) d1,
                     Suc n1))))"

subsection \<open>group_cells_by_row\<close>

text \<open>
  The result dictionary is an association list in insertion order, as a Python
  dictionary iterates: \<open>rows[row_idx] = []\<close> adds a new key at the end, and
  \<open>rows[row_idx].append(cell)\<close> changes the entry where it stands.
\<close>

fun group_loop :: "cell list \<Rightarrow> (scalar \<times> cell list) list \<Rightarrow> (scalar \<times> cell list) list"
  where
  "group_loop [] rows = rows"
| "group_loop (c # cs) rows =
     (let row_idx = get_row0 c;
          rows1 = (if row_idx \<notin> fst ` set rows then AList.update row_idx [] rows else rows)
      in group_loop cs (AList.map_entry row_idx (\<lambda>l. l @ [c]) rows1))"

text \<open>The argument is \<open>None\<close> for Python's \<open>None\<close>.\<close>

definition group_cells_by_row :: "box option \<Rightarrow> (scalar \<times> cell list) list" where
  "group_cells_by_row table =
     (case table of
        None \<Rightarrow> []
      | Some t \<Rightarrow>
          if t = empty_box \<or> box_cells t = None then []
          else group_loop (get_list (box_cells t)) [])"

subsection \<open>copy_invoice_date_to_line_items\<close>

text \<open>The loop over \<open>rows.keys()\<close>.\<close>

fun rows_loop ::
  "clock \<Rightarrow> scalar list \<Rightarrow> string \<Rightarrow> document \<Rightarrow> nat \<Rightarrow> unit outcome \<times> document \<times> nat"
  where
  "rows_loop clk [] v document n = (Returned (), document, n)"
| "rows_loop clk (row_idx # ks) v document n =
     (case py_gt0 row_idx of
        Inl e \<Rightarrow> (Raised e, document, n)
      | Inr False \<Rightarrow> rows_loop clk ks v document n
      | Inr True \<Rightarrow>
          (case set_cell_value clk document row_idx ''line_item_start_date'' v n of
             (Raised e, d1, n1) \<Rightarrow> (Raised e, d1, n1)
           | (Returned ok, d1, n1) \<Rightarrow> rows_loop clk ks v d1 n1))"

text \<open>The body of the \<open>try\<close> block.\<close>

definition copy_body :: "clock \<Rightarrow> document \<Rightarrow> nat \<Rightarrow> unit outcome \<times> document \<times> nat" where
  "copy_body clk document n =
     (let invoice_date = get_field_value document ''invoice_date'' in
      if invoice_date = [] then (Returned (), document, n)
      else
        (case find_or_create_table clk document n of
           (Raised e, d1, n1) \<Rightarrow> (Raised e, d1, n1)
         | (Returned (r, t), d1, n1) \<Rightarrow>
             rows_loop clk (map fst (group_cells_by_row (Some t))) invoice_date d1 n1))"

text \<open>
  Both the \<open>try\<close> block and the \<open>except Exception\<close> handler end in \<open>return document\<close>:
  the document as it stands, whatever the outcome of the body.
\<close>

definition copy_invoice_date_to_line_items :: "clock \<Rightarrow> document \<Rightarrow> nat \<Rightarrow> document \<times> nat"
  where
  "copy_invoice_date_to_line_items clk document n =
     (case copy_body clk document n of
        (Returned u, d1, n1) \<Rightarrow> (d1, n1)
      | (Raised e, d1, n1) \<Rightarrow> (d1, n1))"

subsection \<open>handler\<close>

fun handler :: "clock \<Rightarrow> document list \<Rightarrow> nat \<Rightarrow> document list \<times> nat" where
  "handler clk [] n = ([], n)"
| "handler clk (document # ds) n =
     (case copy_invoice_date_to_line_items clk document n of
        (d1, n1) \<Rightarrow> (case handler clk ds n1 of (ds1, n2) \<Rightarrow> (d1 # ds1, n2)))"

section \<open>Derived notions\<close>

text \<open>
  Nothing below is part of the module: these are the observations the properties are
  stated with, and the module's work on one table written as functions on its cell list.
\<close>

subsection \<open>Observing a document\<close>

text \<open>The table the module works on: the first table element of the authoritative list.\<close>

definition the_table :: "document \<Rightarrow> box option" where
  "the_table d = map_option snd (find_first is_table (select_boxes d))"

definition table_cells :: "document \<Rightarrow> cell list" where
  "table_cells d = (case the_table d of None \<Rightarrow> [] | Some t \<Rightarrow> get_list (box_cells t))"

text \<open>One of the two lists, empty when its key is absent.\<close>

definition boxes_of :: "which \<Rightarrow> document \<Rightarrow> box list" where
  "boxes_of w d =
     get_list (case w of Moderated \<Rightarrow> moderated_boxes d | Predicted \<Rightarrow> predicted_boxes d)"

text \<open>The cells of a list that satisfy a test, over all its elements, in document order.\<close>

definition cells_where :: "(cell \<Rightarrow> bool) \<Rightarrow> which \<Rightarrow> document \<Rightarrow> cell list" where
  "cells_where Q w d = concat (map (\<lambda>b. filter Q (get_list (box_cells b))) (boxes_of w d))"

text \<open>
  A list to append a new table to exists: \<open>moderated_boxes\<close> is non-empty, or the key
  \<open>predicted_boxes\<close> is present.
\<close>

definition has_list :: "document \<Rightarrow> bool" where
  "has_list d \<longleftrightarrow> truthy (moderated_boxes d) \<or> predicted_boxes d \<noteq> None"

text \<open>The (row, label) pair of a cell, as \<open>set_cell_value\<close> reads it.\<close>

definition pair_key :: "cell \<Rightarrow> scalar \<times> string option" where
  "pair_key c = (get_row c, cell_label c)"

text \<open>No element of the document has two cells with the same (row, label) pair.\<close>

definition pair_unique :: "document \<Rightarrow> bool" where
  "pair_unique d \<longleftrightarrow>
     list_all (\<lambda>b. distinct (map pair_key (get_list (box_cells b)))) (boxes_of Moderated d) \<and>
     list_all (\<lambda>b. distinct (map pair_key (get_list (box_cells b)))) (boxes_of Predicted d)"

text \<open>
  A cell as the data model has it: its row and its column are integers (an absent key
  counts as 0, as the module reads it).
\<close>

definition int_cell :: "cell \<Rightarrow> bool" where
  "int_cell c \<longleftrightarrow>
     (case get_row0 c of SInt i \<Rightarrow> True | _ \<Rightarrow> False) \<and>
     (case get_col0 c of SInt i \<Rightarrow> True | _ \<Rightarrow> False)"

definition col_int :: "cell \<Rightarrow> int" where
  "col_int c = (case get_col0 c of SInt i \<Rightarrow> i | _ \<Rightarrow> 0)"

text \<open>The column numbers of the cells of a row of the table.\<close>

definition row_cols :: "document \<Rightarrow> scalar \<Rightarrow> int list" where
  "row_cols d k = map col_int (filter (\<lambda>c. get_row c = k) (table_cells d))"

text \<open>The copy operation run \<open>k\<close> times in a row, the clock going on.\<close>

definition runs :: "clock \<Rightarrow> nat \<Rightarrow> document \<times> nat \<Rightarrow> document \<times> nat" where
  "runs clk k = (\<lambda>(d, n). copy_invoice_date_to_line_items clk d n) ^^ k"

subsection \<open>Nothing removed\<close>

text \<open>
  \<open>doc_kept d d'\<close>: every element of \<open>d\<close> is in \<open>d'\<close> at the same place of the same
  list, equal but for its cells; every cell of it is there at the same place, equal but
  for its text. Elements and cells may have been added at the end.
\<close>

definition cell_kept :: "cell \<Rightarrow> cell \<Rightarrow> bool" where
  "cell_kept c c' \<longleftrightarrow> c' = c\<lparr>cell_text := cell_text c'\<rparr>"

definition cells_kept :: "cell list \<Rightarrow> cell list \<Rightarrow> bool" where
  "cells_kept cs cs' \<longleftrightarrow>
     length cs \<le> length cs' \<and> list_all2 cell_kept cs (take (length cs) cs')"

definition box_kept :: "box \<Rightarrow> box \<Rightarrow> bool" where
  "box_kept b b' \<longleftrightarrow>
     b'\<lparr>box_cells := box_cells b\<rparr> = b \<and>
     cells_kept (get_list (box_cells b)) (get_list (box_cells b'))"

definition boxes_kept :: "box list \<Rightarrow> box list \<Rightarrow> bool" where
  "boxes_kept bs bs' \<longleftrightarrow>
     length bs \<le> length bs' \<and> list_all2 box_kept bs (take (length bs) bs')"

definition doc_kept :: "document \<Rightarrow> document \<Rightarrow> bool" where
  "doc_kept d d' \<longleftrightarrow>
     boxes_kept (boxes_of Moderated d) (boxes_of Moderated d') \<and>
     boxes_kept (boxes_of Predicted d) (boxes_of Predicted d')"

subsection \<open>The module's work on the cell list of the table\<close>

text \<open>
  Once the table exists, \<open>set_cell_value\<close> and the loop of the copy operation only change
  its cell list. \<open>cells_write\<close> and \<open>cells_loop\<close> are that change on the list alone; the
  lemmas \<open>set_cell_value_table\<close> and \<open>rows_loop_table\<close> prove that the module's functions
  do exactly this to the document.
\<close>

definition cells_write ::
  "clock \<Rightarrow> cell list \<Rightarrow> scalar \<Rightarrow> string \<Rightarrow> string \<Rightarrow> nat \<Rightarrow> bool outcome \<times> cell list \<times> nat"
  where
  "cells_write clk cs row_idx label v n =
     (case find_first (matches row_idx label) cs of
        Some (j, c) \<Rightarrow> (Returned True, cs[j := c\<lparr>cell_text := Some v\<rparr>], n)
      | None \<Rightarrow>
          (case max_col_loop cs row_idx 0 of
             Inl e \<Rightarrow> (Raised e, cs, n)
           | Inr max_col \<Rightarrow>
               (Returned True, cs @ [new_cell label row_idx max_col v (clk n)], Suc n)))"

fun cells_loop ::
  "clock \<Rightarrow> scalar list \<Rightarrow> string \<Rightarrow> cell list \<Rightarrow> nat \<Rightarrow> unit outcome \<times> cell list \<times> nat"
  where
  "cells_loop clk [] v cs n = (Returned (), cs, n)"
| "cells_loop clk (row_idx # ks) v cs n =
     (case py_gt0 row_idx of
        Inl e \<Rightarrow> (Raised e, cs, n)
      | Inr False \<Rightarrow> cells_loop clk ks v cs n
      | Inr True \<Rightarrow>
          (case cells_write clk cs row_idx ''line_item_start_date'' v n of
             (Raised e, cs1, n1) \<Rightarrow> (Raised e, cs1, n1)
           | (Returned ok, cs1, n1) \<Rightarrow> cells_loop clk ks v cs1 n1))"

text \<open>The document with the cell list of its table replaced, and with an element added.\<close>

definition upd :: "document \<Rightarrow> nat \<Rightarrow> box \<Rightarrow> cell list \<Rightarrow> document" where
  "upd d i t cs = put_box (active d, i) (t\<lparr>box_cells := Some cs\<rparr>) d"

definition add_box :: "document \<Rightarrow> box \<Rightarrow> document" where
  "add_box d b =
     (if truthy (moderated_boxes d)
      then d\<lparr>moderated_boxes := Some (get_list (moderated_boxes d) @ [b])\<rparr>
      else d\<lparr>predicted_boxes := Some (get_list (predicted_boxes d) @ [b])\<rparr>)"

text \<open>The keys of the row grouping, and the order a dictionary takes its keys in.\<close>

definition row_keys :: "cell list \<Rightarrow> scalar list" where
  "row_keys cs = map fst (group_loop cs [])"

fun first_seen :: "'a list \<Rightarrow> 'a list \<Rightarrow> 'a list" where
  "first_seen [] ks = ks"
| "first_seen (x # xs) ks = first_seen xs (if x \<in> set ks then ks else ks @ [x])"

text \<open>The first cell of the row with the label holds the value.\<close>

definition written :: "scalar \<Rightarrow> string \<Rightarrow> string \<Rightarrow> cell list \<Rightarrow> bool" where
  "written k l v cs \<longleftrightarrow>
     (case find_first (matches k l) cs of None \<Rightarrow> False | Some (j, c) \<Rightarrow> cell_text c = Some v)"

section \<open>Sample inputs\<close>

text \<open>
  Records as the upstream system writes them: a cell with the keys \<open>row\<close>, \<open>col\<close>,
  \<open>label\<close> and \<open>text\<close>, a cell with neither \<open>row\<close> nor \<open>col\<close>, a field element and a
  table element.
\<close>

definition plain_cell :: "scalar \<Rightarrow> scalar \<Rightarrow> string \<Rightarrow> string \<Rightarrow> cell" where
  "plain_cell r c l x =
     \<lparr>cell_id = None, cell_row = Some r, cell_col = Some c, cell_row_span = None,
      cell_col_span = None, cell_label = Some l, cell_xmin = None, cell_ymin = None,
      cell_xmax = None, cell_ymax = None, cell_score = None, cell_text = Some x,
      cell_row_label = None, cell_verification_status = None, cell_status = None,
      cell_failed_validation = None, cell_label_id = None, cell_lookup_edited = None\<rparr>"

definition rowless_cell :: "string \<Rightarrow> string \<Rightarrow> cell" where
  "rowless_cell l x =
     \<lparr>cell_id = None, cell_row = None, cell_col = None, cell_row_span = None,
      cell_col_span = None, cell_label = Some l, cell_xmin = None, cell_ymin = None,
      cell_xmax = None, cell_ymax = None, cell_score = None, cell_text = Some x,
      cell_row_label = None, cell_verification_status = None, cell_status = None,
      cell_failed_validation = None, cell_label_id = None, cell_lookup_edited = None\<rparr>"

definition field_box :: "string \<Rightarrow> string \<Rightarrow> box" where
  "field_box l x = empty_box\<lparr>box_type := Some ''field'', box_label := Some l,
     box_ocr_text := Some x\<rparr>"

definition table_box :: "cell list \<Rightarrow> box" where
  "table_box cs = empty_box\<lparr>box_type := Some ''table'', box_cells := Some cs\<rparr>"

definition predicted_doc :: "box list \<Rightarrow> document" where
  "predicted_doc bs = \<lparr>moderated_boxes = None, predicted_boxes = Some bs\<rparr>"

text \<open>The documents \<open>{}\<close> and \<open>{"moderated_boxes": []}\<close>.\<close>

definition empty_doc :: document where
  "empty_doc = \<lparr>moderated_boxes = None, predicted_boxes = None\<rparr>"

definition empty_moderated_doc :: document where
  "empty_moderated_doc = \<lparr>moderated_boxes = Some [], predicted_boxes = None\<rparr>"

definition sample_clock :: clock where
  "sample_clock k = ''1700000000.'' @ str_nat k"

text \<open>
  An invoice with a header row, two lines and a cell that has no \<open>row\<close> key; row 1 has
  cells at columns 1 and 2.
\<close>

definition sample_cells :: "cell list" where
  "sample_cells =
     [plain_cell (SInt 0) (SInt 1) ''item'' ''Item'',
      plain_cell (SInt 1) (SInt 1) ''item'' ''pen'',
      rowless_cell ''item'' ''loose'',
      plain_cell (SInt 1) (SInt 2) ''qty'' ''2'',
      plain_cell (SInt 2) (SInt 1) ''item'' ''ink'']"

definition sample_doc :: document where
  "sample_doc = predicted_doc [field_box ''invoice_date'' ''2024-01-15'', table_box sample_cells]"

text \<open>A table whose columns carry no label yet: two cells of row 1 with the label \<open>""\<close>.\<close>

definition unlabelled_doc :: document where
  "unlabelled_doc = predicted_doc
     [field_box ''invoice_date'' ''2024-01-15'',
      table_box
        [plain_cell (SInt 1) (SInt 1) [] ''pen'',
         plain_cell (SInt 1) (SInt 2) [] ''2'']]"

text \<open>A table that already has the target cell of row 1.\<close>

definition dated_doc :: document where
  "dated_doc = predicted_doc
     [field_box ''invoice_date'' ''2024-01-15'',
      table_box
        [plain_cell (SInt 1) (SInt 1) ''item'' ''pen'',
         plain_cell (SInt 1) (SInt 2) ''line_item_start_date'' ''2023-12-31'']]"

text \<open>A malformed record: the row of the second cell is the string \<open>"x"\<close>.\<close>

definition broken_doc :: document where
  "broken_doc = predicted_doc
     [field_box ''invoice_date'' ''2024-01-15'',
      table_box
        [plain_cell (SInt 1) (SInt 1) ''item'' ''pen'',
         plain_cell (SStr ''x'') (SInt 1) ''item'' ''ink'',
         plain_cell (SInt 2) (SInt 1) ''item'' ''nib'']]"

section \<open>Lemmas\<close>

text \<open>\<open>str_nat\<close> is unfolded on numerals only.\<close>

declare str_nat.simps [simp del]

subsection \<open>The first element that satisfies a test\<close>

lemma find_first_None_iff: "find_first P xs = None \<longleftrightarrow> (\<forall>x\<in>set xs. \<not> P x)"
  by (induction xs) auto

lemma find_first_SomeD:
  "find_first P xs = Some (i, x) \<Longrightarrow> i < length xs \<and> xs ! i = x \<and> P x \<and> (\<forall>j<i. \<not> P (xs ! j))"
proof (induction xs arbitrary: i)
  case Nil
  then show ?case by simp
next
  case (Cons a xs)
  show ?case
  proof (cases "P a")
    case True
    with Cons.prems show ?thesis by simp
  next
    case False
    with Cons.prems obtain k where k: "find_first P xs = Some (k, x)" "i = Suc k"
      by (auto split: prod.splits)
    from Cons.IH[OF k(1)] k(2) False show ?thesis
      by (auto simp: nth_Cons split: nat.splits)
  qed
qed

lemma find_first_SomeI:
  "i < length xs \<Longrightarrow> P (xs ! i) \<Longrightarrow> (\<forall>j<i. \<not> P (xs ! j)) \<Longrightarrow> find_first P xs = Some (i, xs ! i)"
proof (induction xs arbitrary: i)
  case Nil
  then show ?case by simp
next
  case (Cons a xs)
  show ?case
  proof (cases i)
    case 0
    with Cons.prems show ?thesis by simp
  next
    case (Suc k)
    with Cons.prems have "\<not> P a" by auto
    moreover have "find_first P xs = Some (k, xs ! k)"
      using Cons.prems Suc by (intro Cons.IH) auto
    ultimately show ?thesis using Suc by simp
  qed
qed

lemma find_first_append:
  "find_first P (xs @ ys) =
     (case find_first P xs of
        Some r \<Rightarrow> Some r
      | None \<Rightarrow> map_option (\<lambda>(i, y). (length xs + i, y)) (find_first P ys))"
  by (induction xs) (auto simp: option.map_comp comp_def case_prod_unfold option.map_ident split: option.splits)

lemma find_first_update_hit:
  "find_first P xs = Some (i, x) \<Longrightarrow> P y \<Longrightarrow> find_first P (xs[i := y]) = Some (i, y)"
proof -
  assume a: "find_first P xs = Some (i, x)" and y: "P y"
  from find_first_SomeD[OF a] have "i < length (xs[i := y])" "P ((xs[i := y]) ! i)"
    "\<forall>j<i. \<not> P ((xs[i := y]) ! j)" using y by auto
  from find_first_SomeI[OF this] a find_first_SomeD[OF a] show ?thesis by simp
qed

lemma find_first_update_miss:
  "i < length xs \<Longrightarrow> \<not> P (xs ! i) \<Longrightarrow> \<not> P y \<Longrightarrow> find_first P (xs[i := y]) = find_first P xs"
proof (induction xs arbitrary: i)
  case Nil
  then show ?case by simp
next
  case (Cons a xs)
  then show ?case by (cases i) auto
qed

lemma filter_update_miss:
  "i < length xs \<Longrightarrow> \<not> P (xs ! i) \<Longrightarrow> \<not> P y \<Longrightarrow> filter P (xs[i := y]) = filter P xs"
proof (induction xs arbitrary: i)
  case Nil
  then show ?case by simp
next
  case (Cons a xs)
  then show ?case by (cases i) auto
qed

subsection \<open>References into a document\<close>

lemma select_put_box [simp]:
  "select_boxes (put_box (active d, i) b d) = (select_boxes d)[i := b]"
  by (cases "moderated_boxes d"; cases "predicted_boxes d")
     (auto simp: select_boxes_def active_def truthy_def get_list_def)

lemma active_put_box [simp]: "active (put_box (active d, i) b d) = active d"
  by (cases "moderated_boxes d"; cases "predicted_boxes d")
     (auto simp: active_def truthy_def)

lemma put_box_same:
  "i < length (select_boxes d) \<Longrightarrow> select_boxes d ! i = b \<Longrightarrow> put_box (active d, i) b d = d"
  by (cases "moderated_boxes d"; cases "predicted_boxes d")
     (auto simp: select_boxes_def active_def truthy_def get_list_def split: if_splits)

lemma put_box_twice:
  "put_box (active d, i) b2 (put_box (active d, i) b1 d) = put_box (active d, i) b2 d"
  by (cases "active d"; cases "moderated_boxes d"; cases "predicted_boxes d") auto

lemma select_add_box [simp]:
  "select_boxes d \<noteq> [] \<Longrightarrow> select_boxes (add_box d b) = select_boxes d @ [b]"
  by (cases "moderated_boxes d"; cases "predicted_boxes d")
     (auto simp: select_boxes_def add_box_def truthy_def get_list_def split: if_splits)

lemma is_table_cells_upd [simp]: "is_table (t\<lparr>box_cells := x\<rparr>) = is_table t"
  by (simp add: is_table_def)

lemma is_field_cells_upd [simp]: "is_field l (t\<lparr>box_cells := x\<rparr>) = is_field l t"
  by (simp add: is_field_def)

lemma table_not_field: "is_table t \<Longrightarrow> \<not> is_field l t"
  by (auto simp: is_table_def is_field_def)

lemma has_table_upd:
  assumes "find_first is_table (select_boxes d) = Some (i, t)"
  shows "find_first is_table (select_boxes (upd d i t cs)) = Some (i, t\<lparr>box_cells := Some cs\<rparr>)"
  using find_first_update_hit[OF assms, of "t\<lparr>box_cells := Some cs\<rparr>"] find_first_SomeD[OF assms]
  by (simp add: upd_def)

lemma active_upd [simp]: "active (upd d i t cs) = active d"
  by (simp add: upd_def)

lemma upd_same:
  assumes "find_first is_table (select_boxes d) = Some (i, t)" "box_cells t = Some cs"
  shows "upd d i t cs = d"
proof -
  have "t\<lparr>box_cells := Some cs\<rparr> = t" using assms(2) by simp
  then show ?thesis using find_first_SomeD[OF assms(1)] by (simp add: upd_def put_box_same)
qed

lemma upd_upd: "upd (upd d i t cs1) i (t\<lparr>box_cells := Some cs1\<rparr>) cs2 = upd d i t cs2"
  by (simp add: upd_def put_box_twice del: put_box.simps)

lemma field_upd:
  assumes "find_first is_table (select_boxes d) = Some (i, t)"
  shows "get_field_value (upd d i t cs) l = get_field_value d l"
proof -
  from find_first_SomeD[OF assms] have i: "i < length (select_boxes d)"
    and t: "select_boxes d ! i = t" "is_table t" by auto
  have "find_first (is_field l) ((select_boxes d)[i := t\<lparr>box_cells := Some cs\<rparr>])
        = find_first (is_field l) (select_boxes d)"
    using i t by (intro find_first_update_miss) (auto simp: table_not_field)
  then show ?thesis by (simp add: get_field_value_def upd_def)
qed

subsection \<open>The module's functions on a document that has a table\<close>

lemma fct_found:
  "find_first is_table (select_boxes d) = Some (i, t) \<Longrightarrow>
   find_or_create_table clk d n = (Returned ((active d, i), t), d, n)"
  by (simp add: find_or_create_table_def)

lemma fct_created:
  assumes "find_first is_table (select_boxes d) = None" "select_boxes d \<noteq> []"
  shows "find_or_create_table clk d n =
           (Returned ((active d, length (select_boxes d)), new_table (clk n)),
            add_box d (new_table (clk n)), Suc n)"
  using assms
  by (cases "moderated_boxes d"; cases "predicted_boxes d")
     (auto simp: find_or_create_table_def select_boxes_def active_def truthy_def get_list_def
        add_box_def Let_def split: if_splits)

lemma set_cell_value_table:
  assumes "find_first is_table (select_boxes d) = Some (i, t)"
  shows "set_cell_value clk d row_idx label v n =
     (case cells_write clk (get_list (box_cells t)) row_idx label v n of
        (Raised e, cs1, n1) \<Rightarrow> (Raised e, d, n1)
      | (Returned ok, cs1, n1) \<Rightarrow> (Returned ok, upd d i t cs1, n1))"
  by (simp add: set_cell_value_def fct_found[OF assms] cells_write_def upd_def
      split: option.splits sum.splits prod.splits del: put_box.simps)

lemma rows_loop_table:
  assumes "find_first is_table (select_boxes d) = Some (i, t)" "box_cells t = Some cs"
  shows "rows_loop clk ks v d n =
     (case cells_loop clk ks v cs n of (r, cs1, n1) \<Rightarrow> (r, upd d i t cs1, n1))"
  using assms
proof (induction ks arbitrary: d t cs n)
  case Nil
  then show ?case by (simp add: upd_same)
next
  case (Cons k ks)
  show ?case
  proof (cases "py_gt0 k")
    case (Inl e)
    then show ?thesis using Cons.prems by (simp add: upd_same)
  next
    case (Inr b)
    show ?thesis
    proof (cases b)
      case False
      then show ?thesis using Inr Cons by simp
    next
      case True
      obtain r cs1 n1 where w: "cells_write clk cs k ''line_item_start_date'' v n = (r, cs1, n1)"
        by (cases "cells_write clk cs k ''line_item_start_date'' v n") auto
      show ?thesis
      proof (cases r)
        case (Raised e)
        have "cs1 = cs" using w Raised
          by (auto simp: cells_write_def split: option.splits sum.splits)
        then show ?thesis using Inr True w Raised Cons.prems
          by (simp add: set_cell_value_table[OF Cons.prems(1)] get_list_def upd_same)
      next
        case (Returned ok)
        let ?d1 = "upd d i t cs1" and ?t1 = "t\<lparr>box_cells := Some cs1\<rparr>"
        have h: "find_first is_table (select_boxes ?d1) = Some (i, ?t1)"
          by (rule has_table_upd[OF Cons.prems(1)])
        have "rows_loop clk ks v ?d1 n1 =
              (case cells_loop clk ks v cs1 n1 of (r, cs2, n2) \<Rightarrow> (r, upd ?d1 i ?t1 cs2, n2))"
          by (rule Cons.IH[OF h]) simp
        then show ?thesis using Inr True w Returned Cons.prems
          by (simp add: set_cell_value_table[OF Cons.prems(1)] get_list_def upd_upd)
      qed
    qed
  qed
qed

subsection \<open>The row grouping\<close>

lemma map_fst_map_entry: "map fst (AList.map_entry k f xs) = map fst xs"
  by (induction xs) auto

lemma group_loop_keys:
  "map fst (group_loop cs rows) = first_seen (map get_row0 cs) (map fst rows)"
  by (induction cs arbitrary: rows)
     (auto simp: Let_def map_fst_map_entry update_keys)

lemma first_seen_append:
  "first_seen (xs @ ys) ks = first_seen ys (first_seen xs ks)"
  by (induction xs arbitrary: ks) auto

lemma set_first_seen: "set (first_seen xs ks) = set ks \<union> set xs"
  by (induction xs arbitrary: ks) auto

lemma distinct_first_seen: "distinct ks \<Longrightarrow> distinct (first_seen xs ks)"
  by (induction xs arbitrary: ks) auto

lemma first_seen_snoc_old:
  "x \<in> set xs \<union> set ks \<Longrightarrow> first_seen (xs @ [x]) ks = first_seen xs ks"
  by (auto simp: first_seen_append set_first_seen)

lemma row_keys_first_seen: "row_keys cs = first_seen (map get_row0 cs) []"
  by (simp add: row_keys_def group_loop_keys)

lemma set_row_keys: "set (row_keys cs) = get_row0 ` set cs"
  by (simp add: row_keys_first_seen set_first_seen)

lemma group_loop_lookup:
  "distinct (map fst rows) \<Longrightarrow>
   map_of (group_loop cs rows) k =
     (if k \<in> fst ` set rows \<union> get_row0 ` set cs
      then Some ((case map_of rows k of None \<Rightarrow> [] | Some l \<Rightarrow> l) @ filter (\<lambda>c. get_row0 c = k) cs)
      else None)"
proof (induction cs arbitrary: rows)
  case Nil
  then show ?case
    by (auto simp: map_of_eq_None_iff split: option.splits)
next
  case (Cons c cs)
  let ?r = "get_row0 c"
  let ?rows1 = "if ?r \<notin> fst ` set rows then AList.update ?r [] rows else rows"
  let ?rows2 = "AList.map_entry ?r (\<lambda>l. l @ [c]) ?rows1"
  have d: "distinct (map fst ?rows2)"
    using Cons.prems by (auto intro!: distinct_map_entry simp: distinct_update)
  have dom: "fst ` set ?rows2 = insert ?r (fst ` set rows)"
    by (auto simp: dom_map_entry dom_update)
  have look: "map_of ?rows2 k =
      (if k = ?r then Some ((case map_of rows k of None \<Rightarrow> [] | Some l \<Rightarrow> l) @ [c])
       else map_of rows k)"
  proof -
    have n: "\<And>x. x \<notin> fst ` set rows \<Longrightarrow> map_of rows x = None"
      by (simp add: map_of_eq_None_iff)
    show ?thesis
    proof (cases "?r \<in> fst ` set rows")
      case True
      then obtain l where "map_of rows ?r = Some l"
        by (cases "map_of rows ?r") (auto simp: map_of_eq_None_iff)
      with True show ?thesis by (simp add: map_of_map_entry)
    next
      case False
      with n[OF False] show ?thesis by (simp add: map_of_map_entry update_conv')
    qed
  qed
  have "map_of (group_loop (c # cs) rows) k = map_of (group_loop cs ?rows2) k"
    by (simp add: Let_def)
  also have "\<dots> = (if k \<in> fst ` set ?rows2 \<union> get_row0 ` set cs
      then Some ((case map_of ?rows2 k of None \<Rightarrow> [] | Some l \<Rightarrow> l) @ filter (\<lambda>c. get_row0 c = k) cs)
      else None)"
    by (rule Cons.IH[OF d])
  also have "\<dots> = (if k \<in> fst ` set rows \<union> get_row0 ` set (c # cs)
      then Some ((case map_of rows k of None \<Rightarrow> [] | Some l \<Rightarrow> l) @ filter (\<lambda>c. get_row0 c = k) (c # cs))
      else None)"
    unfolding dom look by (auto split: option.splits)
  finally show ?case .
qed

lemma distinct_group_loop: "distinct (map fst rows) \<Longrightarrow> distinct (map fst (group_loop cs rows))"
  by (simp add: group_loop_keys distinct_first_seen)

lemma group_loop_entry:
  assumes "(k, l) \<in> set (group_loop cs [])"
  shows "l = filter (\<lambda>c. get_row0 c = k) cs \<and> l \<noteq> []"
proof -
  have "distinct (map fst (group_loop cs []))" by (simp add: distinct_group_loop)
  with assms have "map_of (group_loop cs []) k = Some l" by simp
  then have k: "k \<in> get_row0 ` set cs" and l: "l = filter (\<lambda>c. get_row0 c = k) cs"
    by (auto simp: group_loop_lookup split: if_splits)
  from k have "filter (\<lambda>c. get_row0 c = k) cs \<noteq> []"
    by (auto simp: filter_empty_conv)
  with l show ?thesis by simp
qed

lemma group_table:
  "is_table t \<Longrightarrow> box_cells t = Some cs \<Longrightarrow> map fst (group_cells_by_row (Some t)) = row_keys cs"
  by (auto simp: group_cells_by_row_def row_keys_def get_list_def is_table_def empty_box_def)

lemma group_table_nocells: "box_cells t = None \<Longrightarrow> group_cells_by_row (Some t) = []"
  by (simp add: group_cells_by_row_def)

subsection \<open>The copy operation, case by case\<close>

lemma field_nonempty_boxes: "get_field_value d l \<noteq> [] \<Longrightarrow> select_boxes d \<noteq> []"
  by (auto simp: get_field_value_def)

lemma copy_no_field:
  "get_field_value d ''invoice_date'' = [] \<Longrightarrow> copy_invoice_date_to_line_items clk d n = (d, n)"
  by (simp add: copy_invoice_date_to_line_items_def copy_body_def Let_def)

lemma copy_body_table:
  assumes "get_field_value d ''invoice_date'' = v" "v \<noteq> []"
    "find_first is_table (select_boxes d) = Some (i, t)" "box_cells t = Some cs"
  shows "copy_body clk d n =
     (case cells_loop clk (row_keys cs) v cs n of (r, cs1, n1) \<Rightarrow> (r, upd d i t cs1, n1))"
proof -
  have t: "is_table t" using find_first_SomeD[OF assms(3)] by simp
  show ?thesis using assms(1,2)
    by (simp add: copy_body_def fct_found[OF assms(3)] group_table[OF t assms(4)]
        rows_loop_table[OF assms(3,4)] Let_def)
qed

lemma copy_table:
  assumes "get_field_value d ''invoice_date'' = v" "v \<noteq> []"
    "find_first is_table (select_boxes d) = Some (i, t)" "box_cells t = Some cs"
  shows "copy_invoice_date_to_line_items clk d n =
     (case cells_loop clk (row_keys cs) v cs n of (r, cs1, n1) \<Rightarrow> (upd d i t cs1, n1))"
  by (simp add: copy_invoice_date_to_line_items_def copy_body_table[OF assms]
      split: prod.splits outcome.splits)

lemma copy_table_nocells:
  assumes "find_first is_table (select_boxes d) = Some (i, t)" "box_cells t = None"
  shows "copy_invoice_date_to_line_items clk d n = (d, n)"
  using assms(2)
  by (simp add: copy_invoice_date_to_line_items_def copy_body_def fct_found[OF assms(1)]
      group_table_nocells Let_def)

lemma copy_created:
  assumes "get_field_value d ''invoice_date'' \<noteq> []"
    "find_first is_table (select_boxes d) = None"
  shows "copy_invoice_date_to_line_items clk d n = (add_box d (new_table (clk n)), Suc n)"
proof -
  have g: "group_cells_by_row (Some (new_table (clk n))) = []"
    by (simp add: group_cells_by_row_def new_table_def get_list_def)
  show ?thesis using assms(1)
    by (simp add: copy_invoice_date_to_line_items_def copy_body_def Let_def
        fct_created[OF assms(2) field_nonempty_boxes[OF assms(1)]] g)
qed

subsection \<open>One write to the cell list\<close>

lemma matches_text [simp]: "matches k l (c\<lparr>cell_text := x\<rparr>) = matches k l c"
  by (simp add: matches_def get_row_def)

lemma get_row_text [simp]: "get_row (c\<lparr>cell_text := x\<rparr>) = get_row c"
  by (simp add: get_row_def)

lemma get_row0_text [simp]: "get_row0 (c\<lparr>cell_text := x\<rparr>) = get_row0 c"
  by (simp add: get_row0_def)

lemma get_col0_text [simp]: "get_col0 (c\<lparr>cell_text := x\<rparr>) = get_col0 c"
  by (simp add: get_col0_def)

lemma pair_key_text [simp]: "pair_key (c\<lparr>cell_text := x\<rparr>) = pair_key c"
  by (simp add: pair_key_def)

lemma int_cell_text [simp]: "int_cell (c\<lparr>cell_text := x\<rparr>) = int_cell c"
  by (simp add: int_cell_def)

lemma new_cell_fields [simp]:
  "get_row (new_cell l k m v now) = k"
  "get_row0 (new_cell l k m v now) = k"
  "get_col0 (new_cell l k m v now) = SInt (m + 1)"
  "cell_row (new_cell l k m v now) = Some k"
  "cell_col (new_cell l k m v now) = Some (SInt (m + 1))"
  "cell_label (new_cell l k m v now) = Some l"
  "cell_text (new_cell l k m v now) = Some v"
  "matches k' l' (new_cell l k m v now) \<longleftrightarrow> k' = k \<and> l' = l"
  "pair_key (new_cell l k m v now) = (k, Some l)"
  by (auto simp: new_cell_def get_row_def get_row0_def get_col0_def matches_def pair_key_def)

text \<open>The two ways a write can end well, and the one way it can fail.\<close>

lemma cells_write_cases:
  assumes "cells_write clk cs k l v n = (r, cs1, n1)"
  obtains
    (Update) j c where "find_first (matches k l) cs = Some (j, c)" "r = Returned True"
      "cs1 = cs[j := c\<lparr>cell_text := Some v\<rparr>]" "n1 = n"
  | (Append) m where "find_first (matches k l) cs = None" "max_col_loop cs k 0 = Inr m"
      "r = Returned True" "cs1 = cs @ [new_cell l k m v (clk n)]" "n1 = Suc n"
  | (Fail) e where "find_first (matches k l) cs = None" "max_col_loop cs k 0 = Inl e"
      "r = Raised e" "cs1 = cs" "n1 = n"
  using assms by (auto simp: cells_write_def split: option.splits sum.splits)

lemma written_fix:
  assumes "written k l v cs"
  shows "cells_write clk cs k l v n = (Returned True, cs, n)"
proof -
  from assms obtain j c where f: "find_first (matches k l) cs = Some (j, c)"
    and t: "cell_text c = Some v"
    by (auto simp: written_def split: option.splits)
  from find_first_SomeD[OF f] have "cs[j := c] = cs" by (auto simp: list_update_same_conv)
  moreover have "c\<lparr>cell_text := Some v\<rparr> = c" using t by simp
  ultimately show ?thesis using f by (simp add: cells_write_def)
qed

lemma written_after:
  assumes "cells_write clk cs k l v n = (Returned ok, cs1, n1)"
  shows "written k l v cs1"
  using assms
proof (cases rule: cells_write_cases)
  case (Update j c)
  from find_first_SomeD[OF Update(1)] have "matches k l (c\<lparr>cell_text := Some v\<rparr>)" by simp
  from find_first_update_hit[OF Update(1) this] Update(3) show ?thesis
    by (simp add: written_def)
next
  case (Append m)
  then show ?thesis by (simp add: written_def find_first_append)
next
  case (Fail e)
  then show ?thesis by simp
qed

lemma written_kept:
  assumes w: "written k l v cs" and c: "cells_write clk cs k' l v n = (r, cs1, n1)"
  shows "written k l v cs1"
proof (cases "k' = k")
  case True
  with written_fix[OF w, of clk n] c w show ?thesis by simp
next
  case False
  from c show ?thesis
  proof (cases rule: cells_write_cases)
    case (Update j c)
    from find_first_SomeD[OF Update(1)] have j: "j < length cs" "cs ! j = c" "matches k' l c"
      by auto
    have "\<not> matches k l (cs ! j)" "\<not> matches k l (c\<lparr>cell_text := Some v\<rparr>)"
      using j False by (auto simp: matches_def)
    from find_first_update_miss[OF j(1) this] w Update(3) show ?thesis
      by (simp add: written_def)
  next
    case (Append m)
    with w show ?thesis
      by (auto simp: written_def find_first_append split: option.splits)
  next
    case (Fail e)
    with w show ?thesis by simp
  qed
qed

lemma written_loop:
  "written k ''line_item_start_date'' v cs \<Longrightarrow> cells_loop clk ks v cs n = (r, cs1, n1) \<Longrightarrow>
   written k ''line_item_start_date'' v cs1"
proof (induction ks arbitrary: cs n)
  case Nil
  then show ?case by simp
next
  case (Cons a ks)
  show ?case
  proof (cases "py_gt0 a")
    case (Inl e)
    with Cons.prems show ?thesis by simp
  next
    case (Inr b)
    show ?thesis
    proof (cases b)
      case False
      with Inr Cons show ?thesis by simp
    next
      case True
      obtain r' cs' n' where w: "cells_write clk cs a ''line_item_start_date'' v n = (r', cs', n')"
        by (cases "cells_write clk cs a ''line_item_start_date'' v n") auto
      have k: "written k ''line_item_start_date'' v cs'"
        by (rule written_kept[OF Cons.prems(1) w])
      show ?thesis
      proof (cases r')
        case (Raised e)
        with Cons.prems(2) Inr True w k show ?thesis by simp
      next
        case (Returned ok)
        with Cons.prems(2) Inr True w have "cells_loop clk ks v cs' n' = (r, cs1, n1)" by simp
        from Cons.IH[OF k this] show ?thesis .
      qed
    qed
  qed
qed

lemma cells_loop_idem:
  "cells_loop clk ks v cs n = (r, cs1, n1) \<Longrightarrow> cells_loop clk' ks v cs1 m = (r, cs1, m)"
proof (induction ks arbitrary: cs n)
  case Nil
  then show ?case by simp
next
  case (Cons a ks)
  show ?case
  proof (cases "py_gt0 a")
    case (Inl e)
    with Cons.prems show ?thesis by auto
  next
    case (Inr b)
    show ?thesis
    proof (cases b)
      case False
      with Inr Cons show ?thesis by simp
    next
      case True
      obtain r' cs' n' where w: "cells_write clk cs a ''line_item_start_date'' v n = (r', cs', n')"
        by (cases "cells_write clk cs a ''line_item_start_date'' v n") auto
      show ?thesis
      proof (cases r')
        case (Raised e)
        with Cons.prems Inr True w have eq: "r = Raised e" "cs1 = cs'" by auto
        from w Raised have "cs' = cs" "find_first (matches a ''line_item_start_date'') cs = None"
          "max_col_loop cs a 0 = Inl e"
          by (auto elim!: cells_write_cases)
        then show ?thesis using eq Inr True by (simp add: cells_write_def)
      next
        case (Returned ok)
        with Cons.prems Inr True w have l: "cells_loop clk ks v cs' n' = (r, cs1, n1)" by simp
        have "written a ''line_item_start_date'' v cs'"
          using w Returned by (auto intro: written_after)
        from written_loop[OF this l] have "written a ''line_item_start_date'' v cs1" .
        from written_fix[OF this] Cons.IH[OF l] Inr True show ?thesis by simp
      qed
    qed
  qed
qed

subsection \<open>What the loop keeps\<close>

lemma cells_loop_rel:
  assumes refl: "\<And>cs. R cs cs"
    and trans: "\<And>a b c. R a b \<Longrightarrow> R b c \<Longrightarrow> R a c"
    and step: "\<And>cs k n r cs' n'. K k \<Longrightarrow> py_gt0 k = Inr True \<Longrightarrow>
        cells_write clk cs k ''line_item_start_date'' v n = (r, cs', n') \<Longrightarrow> R cs cs'"
    and keys: "\<forall>k\<in>set ks. K k"
    and loop: "cells_loop clk ks v cs n = (r, cs1, n1)"
  shows "R cs cs1"
  using keys loop
proof (induction ks arbitrary: cs n)
  case Nil
  then show ?case by (simp add: refl)
next
  case (Cons a ks)
  have keys': "\<forall>k\<in>set ks. K k" and a: "K a" using Cons.prems(1) by simp_all
  show ?case
  proof (cases "py_gt0 a")
    case (Inl e)
    with Cons.prems(2) show ?thesis by (auto simp: refl)
  next
    case (Inr b)
    show ?thesis
    proof (cases b)
      case False
      with Inr Cons.prems(2) Cons.IH[OF keys'] show ?thesis by simp
    next
      case True
      obtain r' cs' n' where w: "cells_write clk cs a ''line_item_start_date'' v n = (r', cs', n')"
        by (cases "cells_write clk cs a ''line_item_start_date'' v n") auto
      have 1: "R cs cs'" using step[OF a _ w] Inr True by simp
      show ?thesis
      proof (cases r')
        case (Raised e)
        with Cons.prems(2) Inr True w 1 show ?thesis by auto
      next
        case (Returned ok)
        with Cons.prems(2) Inr True w have "cells_loop clk ks v cs' n' = (r, cs1, n1)" by simp
        from Cons.IH[OF keys' this] 1 show ?thesis by (blast intro: trans)
      qed
    qed
  qed
qed

lemma py_gt0_TrueD: "py_gt0 k = Inr True \<Longrightarrow> \<exists>i>0. k = SInt i"
  by (cases k) auto

text \<open>Cells that no write can match keep their place and their content.\<close>

lemma cells_write_filter:
  assumes q: "\<And>c. Q c \<Longrightarrow> get_row c \<noteq> k" and qt: "\<And>c x. Q (c\<lparr>cell_text := x\<rparr>) = Q c"
    and w: "cells_write clk cs k l v n = (r, cs', n')"
  shows "filter Q cs' = filter Q cs"
  using w
proof (cases rule: cells_write_cases)
  case (Update j c)
  from find_first_SomeD[OF Update(1)] have j: "j < length cs" "cs ! j = c" "matches k l c"
    by auto
  have "\<not> Q (cs ! j)" "\<not> Q (c\<lparr>cell_text := Some v\<rparr>)"
    using j q[of c] by (auto simp: matches_def qt)
  from filter_update_miss[OF j(1) this] Update(3) show ?thesis by simp
next
  case (Append m)
  have "\<not> Q (new_cell l k m v (clk n))" using q[of "new_cell l k m v (clk n)"] by auto
  with Append show ?thesis by simp
next
  case (Fail e)
  then show ?thesis by simp
qed

lemma cells_loop_filter:
  assumes q: "\<And>c i. Q c \<Longrightarrow> i > 0 \<Longrightarrow> get_row c \<noteq> SInt i"
    and qt: "\<And>c x. Q (c\<lparr>cell_text := x\<rparr>) = Q c"
    and l: "cells_loop clk ks v cs n = (r, cs1, n1)"
  shows "filter Q cs1 = filter Q cs"
proof (rule cells_loop_rel[where R = "\<lambda>a b. filter Q b = filter Q a" and K = "\<lambda>k. True", OF _ _ _ _ l])
  fix cs k n r cs' n'
  assume "py_gt0 k = Inr True"
    and w: "cells_write clk cs k ''line_item_start_date'' v n = (r, cs', n')"
  then obtain i where "i > 0" "k = SInt i" by (auto dest: py_gt0_TrueD)
  then have "\<And>c. Q c \<Longrightarrow> get_row c \<noteq> k" using q by auto
  from cells_write_filter[OF this qt w] show "filter Q cs' = filter Q cs" by simp
qed auto

lemma cells_kept_nth:
  "cells_kept cs cs' \<longleftrightarrow>
     length cs \<le> length cs' \<and>
     (\<forall>j<length cs. cs' ! j = (cs ! j)\<lparr>cell_text := cell_text (cs' ! j)\<rparr>)"
  by (auto simp: cells_kept_def cell_kept_def list_all2_conv_all_nth)

lemma cells_kept_refl: "cells_kept cs cs"
  by (simp add: cells_kept_nth)

lemma cells_kept_trans:
  assumes "cells_kept a b" "cells_kept b c"
  shows "cells_kept a c"
  unfolding cells_kept_nth
proof (intro conjI allI impI)
  show "length a \<le> length c" using assms by (simp add: cells_kept_nth)
next
  fix j assume j: "j < length a"
  then have jb: "j < length b" using assms(1) by (simp add: cells_kept_nth)
  have 1: "b ! j = (a ! j)\<lparr>cell_text := cell_text (b ! j)\<rparr>"
    using assms(1) j by (simp add: cells_kept_nth)
  have 2: "c ! j = (b ! j)\<lparr>cell_text := cell_text (c ! j)\<rparr>"
    using assms(2) jb by (simp add: cells_kept_nth)
  have "c ! j = ((a ! j)\<lparr>cell_text := cell_text (b ! j)\<rparr>)\<lparr>cell_text := cell_text (c ! j)\<rparr>"
    using 1 2 by simp
  then show "c ! j = (a ! j)\<lparr>cell_text := cell_text (c ! j)\<rparr>" by simp
qed

lemma cells_write_kept:
  assumes "cells_write clk cs k l v n = (r, cs', n')"
  shows "cells_kept cs cs'"
  using assms
proof (cases rule: cells_write_cases)
  case (Update j c)
  from find_first_SomeD[OF Update(1)] have j: "j < length cs" "cs ! j = c" by auto
  show ?thesis unfolding cells_kept_nth
    using Update(3) j by (auto simp: nth_list_update)
next
  case (Append m)
  then show ?thesis
    by (simp add: cells_kept_nth nth_append)
next
  case (Fail e)
  then show ?thesis by (simp add: cells_kept_refl)
qed

lemma cells_loop_kept:
  assumes "cells_loop clk ks v cs n = (r, cs1, n1)"
  shows "cells_kept cs cs1"
  by (rule cells_loop_rel[where R = cells_kept and K = "\<lambda>k. True", OF cells_kept_refl _ _ _ assms])
     (auto intro: cells_kept_trans cells_write_kept)

lemma cells_write_distinct:
  assumes "cells_write clk cs k l v n = (r, cs', n')" "distinct (map pair_key cs)"
  shows "distinct (map pair_key cs')"
  using assms(1)
proof (cases rule: cells_write_cases)
  case (Update j c)
  from find_first_SomeD[OF Update(1)] have j: "j < length cs" "cs ! j = c" by auto
  have "map pair_key cs' = (map pair_key cs)[j := pair_key c]"
    using Update(3) by (simp add: map_update)
  also have "\<dots> = map pair_key cs" using j by (simp add: list_update_same_conv)
  finally show ?thesis using assms(2) by simp
next
  case (Append m)
  have "(k, Some l) \<notin> pair_key ` set cs"
    using Append(1) by (auto simp: find_first_None_iff matches_def pair_key_def)
  with Append assms(2) show ?thesis by simp
next
  case (Fail e)
  with assms(2) show ?thesis by simp
qed

lemma cells_loop_distinct:
  assumes "cells_loop clk ks v cs n = (r, cs1, n1)" "distinct (map pair_key cs)"
  shows "distinct (map pair_key cs1)"
proof -
  have "distinct (map pair_key cs) \<longrightarrow> distinct (map pair_key cs1)"
    by (rule cells_loop_rel[where R = "\<lambda>a b. distinct (map pair_key a) \<longrightarrow> distinct (map pair_key b)"
          and K = "\<lambda>k. True", OF _ _ _ _ assms(1)])
       (auto intro: cells_write_distinct)
  with assms(2) show ?thesis by simp
qed

lemma row_keys_cong: "map get_row0 cs' = map get_row0 cs \<Longrightarrow> row_keys cs' = row_keys cs"
  by (simp add: row_keys_first_seen)

lemma cells_write_row_keys:
  assumes "cells_write clk cs k l v n = (r, cs', n')" "k \<in> set (row_keys cs)"
  shows "row_keys cs' = row_keys cs"
  using assms(1)
proof (cases rule: cells_write_cases)
  case (Update j c)
  from find_first_SomeD[OF Update(1)] have j: "j < length cs" "cs ! j = c" by auto
  have "map get_row0 cs' = (map get_row0 cs)[j := get_row0 c]"
    using Update(3) by (simp add: map_update)
  also have "\<dots> = map get_row0 cs" using j by (simp add: list_update_same_conv)
  finally show ?thesis by (rule row_keys_cong)
next
  case (Append m)
  have "k \<in> set (map get_row0 cs) \<union> set []" using assms(2) by (simp add: set_row_keys)
  from first_seen_snoc_old[OF this] Append(4) show ?thesis
    by (simp add: row_keys_first_seen)
next
  case (Fail e)
  then show ?thesis by simp
qed

lemma cells_loop_row_keys:
  assumes "cells_loop clk ks v cs n = (r, cs1, n1)" "set ks \<subseteq> set (row_keys cs)"
  shows "row_keys cs1 = row_keys cs"
proof -
  have "set ks \<subseteq> set (row_keys cs) \<longrightarrow> row_keys cs1 = row_keys cs"
    by (rule cells_loop_rel[where R = "\<lambda>a b. set ks \<subseteq> set (row_keys a) \<longrightarrow> row_keys b = row_keys a"
          and K = "\<lambda>k. k \<in> set ks", OF _ _ _ _ assms(1)])
       (auto dest: cells_write_row_keys)
  with assms(2) show ?thesis by simp
qed

subsection \<open>From the cell list to the document\<close>

lemma select_boxes_of: "select_boxes d = boxes_of (active d) d"
  by (simp add: select_boxes_def boxes_of_def active_def)

lemma boxes_of_put_box:
  "boxes_of w (put_box (w', i) b d) = (if w = w' then (boxes_of w d)[i := b] else boxes_of w d)"
  by (cases w; cases w'; cases "moderated_boxes d"; cases "predicted_boxes d")
     (auto simp: boxes_of_def get_list_def)

lemma boxes_of_upd:
  "boxes_of w (upd d i t cs) =
     (if w = active d then (boxes_of w d)[i := t\<lparr>box_cells := Some cs\<rparr>] else boxes_of w d)"
  by (simp add: upd_def boxes_of_put_box del: put_box.simps)

lemma boxes_of_add_box:
  "boxes_of w (add_box d b) = (if w = active d then boxes_of w d @ [b] else boxes_of w d)"
  by (cases w; cases "moderated_boxes d"; cases "predicted_boxes d")
     (auto simp: boxes_of_def get_list_def add_box_def active_def truthy_def)

lemma copy_cases:
  obtains
    (NoField) "get_field_value d ''invoice_date'' = []"
      "copy_invoice_date_to_line_items clk d n = (d, n)"
  | (NoCells) i t where
      "find_first is_table (select_boxes d) = Some (i, t)" "box_cells t = None"
      "copy_invoice_date_to_line_items clk d n = (d, n)"
  | (Table) i t cs r cs1 n1 where
      "find_first is_table (select_boxes d) = Some (i, t)" "box_cells t = Some cs"
      "get_field_value d ''invoice_date'' \<noteq> []"
      "cells_loop clk (row_keys cs) (get_field_value d ''invoice_date'') cs n = (r, cs1, n1)"
      "copy_body clk d n = (r, upd d i t cs1, n1)"
      "copy_invoice_date_to_line_items clk d n = (upd d i t cs1, n1)"
  | (Created)
      "find_first is_table (select_boxes d) = None" "get_field_value d ''invoice_date'' \<noteq> []"
      "copy_invoice_date_to_line_items clk d n = (add_box d (new_table (clk n)), Suc n)"
proof (cases "get_field_value d ''invoice_date'' = []")
  case True
  then show ?thesis using NoField by (simp add: copy_no_field)
next
  case v: False
  show ?thesis
  proof (cases "find_first is_table (select_boxes d)")
    case None
    with v show ?thesis using Created by (simp add: copy_created)
  next
    case (Some p)
    obtain i t where p: "p = (i, t)" by (cases p)
    show ?thesis
    proof (cases "box_cells t")
      case None
      with Some p show ?thesis using NoCells by (simp add: copy_table_nocells)
    next
      case cs: (Some cs)
      obtain r cs1 n1 where
        l: "cells_loop clk (row_keys cs) (get_field_value d ''invoice_date'') cs n = (r, cs1, n1)"
        by (cases "cells_loop clk (row_keys cs) (get_field_value d ''invoice_date'') cs n") auto
      have f: "find_first is_table (select_boxes d) = Some (i, t)" using Some p by simp
      show ?thesis
        using Table[OF f cs v l] copy_table[OF refl v f cs, of clk n]
          copy_body_table[OF refl v f cs, of clk n] l
        by simp
    qed
  qed
qed

lemma cells_where_update:
  assumes "i < length (boxes_of w d) \<Longrightarrow>
     filter Q (get_list (box_cells b)) = filter Q (get_list (box_cells (boxes_of w d ! i)))"
  shows "concat (map (\<lambda>b. filter Q (get_list (box_cells b))) ((boxes_of w d)[i := b]))
       = concat (map (\<lambda>b. filter Q (get_list (box_cells b))) (boxes_of w d))"
proof (cases "i < length (boxes_of w d)")
  case True
  have "map (\<lambda>b. filter Q (get_list (box_cells b))) ((boxes_of w d)[i := b])
      = (map (\<lambda>b. filter Q (get_list (box_cells b))) (boxes_of w d))
          [i := filter Q (get_list (box_cells b))]"
    by (simp add: map_update)
  also have "\<dots> = map (\<lambda>b. filter Q (get_list (box_cells b))) (boxes_of w d)"
    using True assms by (simp add: list_update_same_conv)
  finally show ?thesis by simp
next
  case False
  then show ?thesis by (simp add: list_update_beyond)
qed

lemma copy_untouched:
  assumes q: "\<And>c i. Q c \<Longrightarrow> i > 0 \<Longrightarrow> get_row c \<noteq> SInt i"
    and qt: "\<And>c x. Q (c\<lparr>cell_text := x\<rparr>) = Q c"
  shows "cells_where Q w (fst (copy_invoice_date_to_line_items clk d n)) = cells_where Q w d"
proof (cases rule: copy_cases[of d clk n])
  case NoField
  then show ?thesis by simp
next
  case (NoCells i t)
  then show ?thesis by simp
next
  case (Table i t cs r cs1 n1)
  from find_first_SomeD[OF Table(1)] have t: "select_boxes d ! i = t" by simp
  have f: "filter Q cs1 = filter Q cs" by (rule cells_loop_filter[OF q qt Table(4)])
  show ?thesis
  proof (cases "w = active d")
    case True
    have "filter Q (get_list (box_cells (t\<lparr>box_cells := Some cs1\<rparr>)))
        = filter Q (get_list (box_cells (boxes_of w d ! i)))"
      using f t True Table(2) by (simp add: get_list_def select_boxes_of)
    from cells_where_update[where Q = Q, OF this] True Table(6) show ?thesis
      by (simp add: cells_where_def boxes_of_upd)
  next
    case False
    with Table(6) show ?thesis by (simp add: cells_where_def boxes_of_upd)
  qed
next
  case Created
  then show ?thesis
    by (simp add: cells_where_def boxes_of_add_box new_table_def get_list_def)
qed

lemma field_add_box:
  assumes "get_field_value d l \<noteq> []"
  shows "get_field_value (add_box d b) l = get_field_value d l"
proof -
  from assms have ne: "select_boxes d \<noteq> []" by (rule field_nonempty_boxes)
  from assms obtain p where "find_first (is_field l) (select_boxes d) = Some p"
    by (cases "find_first (is_field l) (select_boxes d)") (auto simp: get_field_value_def)
  then show ?thesis using ne
    by (simp add: get_field_value_def find_first_append)
qed

lemma table_add_box:
  assumes "find_first is_table (select_boxes d) = None" "select_boxes d \<noteq> []" "is_table b"
  shows "find_first is_table (select_boxes (add_box d b)) = Some (length (select_boxes d), b)"
  using assms by (simp add: find_first_append)

lemma is_table_new_table [simp]: "is_table (new_table now)"
  by (simp add: is_table_def new_table_def)

lemma cells_new_table [simp]: "box_cells (new_table now) = Some []"
  by (simp add: new_table_def)

lemma row_keys_Nil [simp]: "row_keys [] = []"
  by (simp add: row_keys_def)

lemma copy_idem:
  "copy_invoice_date_to_line_items clk' (fst (copy_invoice_date_to_line_items clk d n)) m
   = (fst (copy_invoice_date_to_line_items clk d n), m)"
proof (cases rule: copy_cases[of d clk n])
  case NoField
  then show ?thesis by (simp add: copy_no_field)
next
  case (NoCells i t)
  then show ?thesis by (simp add: copy_table_nocells)
next
  case (Table i t cs r cs1 n1)
  let ?v = "get_field_value d ''invoice_date''"
  let ?d1 = "upd d i t cs1" and ?t1 = "t\<lparr>box_cells := Some cs1\<rparr>"
  have v1: "get_field_value ?d1 ''invoice_date'' = ?v" by (rule field_upd[OF Table(1)])
  have t1: "find_first is_table (select_boxes ?d1) = Some (i, ?t1)"
    by (rule has_table_upd[OF Table(1)])
  have rk: "row_keys cs1 = row_keys cs" by (rule cells_loop_row_keys[OF Table(4)]) simp
  have l2: "cells_loop clk' (row_keys cs1) ?v cs1 m = (r, cs1, m)"
    unfolding rk by (rule cells_loop_idem[OF Table(4)])
  have "copy_invoice_date_to_line_items clk' ?d1 m = (upd ?d1 i ?t1 cs1, m)"
    using copy_table[OF v1 Table(3) t1, of cs1 clk' m] l2 by simp
  also have "upd ?d1 i ?t1 cs1 = ?d1" by (rule upd_same[OF t1]) simp
  finally show ?thesis using Table(6) by simp
next
  case Created
  let ?b = "new_table (clk n)"
  let ?d1 = "add_box d ?b"
  have ne: "select_boxes d \<noteq> []" by (rule field_nonempty_boxes[OF Created(2)])
  have v1: "get_field_value ?d1 ''invoice_date'' = get_field_value d ''invoice_date''"
    by (rule field_add_box[OF Created(2)])
  have t1: "find_first is_table (select_boxes ?d1) = Some (length (select_boxes d), ?b)"
    by (rule table_add_box[OF Created(1) ne]) simp
  have "copy_invoice_date_to_line_items clk' ?d1 m = (upd ?d1 (length (select_boxes d)) ?b [], m)"
    using copy_table[OF v1 Created(2) t1, of "[]" clk' m] by simp
  also have "upd ?d1 (length (select_boxes d)) ?b [] = ?d1" by (rule upd_same[OF t1]) simp
  finally show ?thesis using Created(3) by simp
qed

subsection \<open>Tables of integer rows and columns\<close>

lemma cells_loop_no_positive:
  "\<forall>k\<in>set ks. py_gt0 k = Inr False \<Longrightarrow> cells_loop clk ks v cs n = (Returned (), cs, n)"
  by (induction ks) auto

lemma table_cells_found:
  "find_first is_table (select_boxes d) = Some (i, t) \<Longrightarrow> table_cells d = get_list (box_cells t)"
  by (simp add: table_cells_def the_table_def)

lemma table_cells_none:
  "find_first is_table (select_boxes d) = None \<Longrightarrow> table_cells d = []"
  by (simp add: table_cells_def the_table_def)

lemma table_cells_upd:
  "find_first is_table (select_boxes d) = Some (i, t) \<Longrightarrow> table_cells (upd d i t cs) = cs"
  by (simp add: table_cells_found[OF has_table_upd] get_list_def)

lemma table_cells_add_new_table:
  assumes "find_first is_table (select_boxes d) = None" "select_boxes d \<noteq> []"
  shows "table_cells (add_box d (new_table now)) = []"
  using table_add_box[OF assms, of "new_table now"]
  by (simp add: table_cells_def the_table_def get_list_def)

lemma max_col_loop_int:
  "\<forall>c\<in>set cs. get_row c = k \<longrightarrow> (\<exists>i. get_col0 c = SInt i) \<Longrightarrow>
   max_col_loop cs k m = Inr (fold max (map col_int (filter (\<lambda>c. get_row c = k) cs)) m)"
proof (induction cs arbitrary: m)
  case Nil
  then show ?case by simp
next
  case (Cons c cs)
  show ?case
  proof (cases "get_row c = k")
    case True
    with Cons.prems obtain i where i: "get_col0 c = SInt i" by auto
    then have "col_int c = i" by (simp add: col_int_def)
    with True i Cons show ?thesis by (simp add: max.commute)
  next
    case False
    with Cons show ?thesis by simp
  qed
qed

lemma fold_max_nonneg:
  assumes "\<forall>x\<in>set xs. (0::int) \<le> x"
  shows "fold max xs 0 = (if xs = [] then 0 else Max (set xs))"
proof (cases xs)
  case Nil
  then show ?thesis by simp
next
  case (Cons y ys)
  have "fold max xs 0 = Max (set (0 # xs))" by (simp only: Max.set_eq_fold)
  also have "\<dots> = max 0 (Max (set xs))" using Cons by simp
  also have "\<dots> = Max (set xs)"
  proof -
    have "0 \<le> Max (set xs)" using assms Cons by (auto simp: Max_ge_iff)
    then show ?thesis by simp
  qed
  finally show ?thesis using Cons by simp
qed

lemma int_cell_row: "int_cell c \<Longrightarrow> \<exists>i. get_row0 c = SInt i"
  by (cases "get_row0 c") (auto simp: int_cell_def)

lemma int_cell_col: "int_cell c \<Longrightarrow> \<exists>i. get_col0 c = SInt i"
  by (cases "get_col0 c") (auto simp: int_cell_def)

lemma cells_write_int:
  assumes int: "list_all int_cell cs"
  shows "\<exists>cs1 n1. cells_write clk cs (SInt i) l v n = (Returned True, cs1, n1) \<and>
           list_all int_cell cs1"
proof (cases "find_first (matches (SInt i) l) cs")
  case None
  have "\<forall>c\<in>set cs. get_row c = SInt i \<longrightarrow> (\<exists>i. get_col0 c = SInt i)"
    using int by (auto simp: list_all_iff dest: int_cell_col)
  from max_col_loop_int[OF this, of 0] None int show ?thesis
    by (simp add: cells_write_def int_cell_def)
next
  case (Some p)
  obtain j c where p: "p = (j, c)" by (cases p)
  from find_first_SomeD[of _ cs j c] Some p have j: "j < length cs" "cs ! j = c" by auto
  then have "int_cell c" using int by (auto simp: list_all_iff)
  then have "list_all int_cell (cs[j := c\<lparr>cell_text := Some v\<rparr>])"
    using int by (auto simp: list_all_iff dest!: set_update_subset_insert[THEN subsetD])
  with Some p show ?thesis by (simp add: cells_write_def)
qed

lemma cells_loop_int:
  "list_all int_cell cs \<Longrightarrow> \<forall>k\<in>set ks. \<exists>i. k = SInt i \<Longrightarrow>
   \<exists>cs1 n1. cells_loop clk ks v cs n = (Returned (), cs1, n1) \<and>
     (\<forall>k\<in>set ks. py_gt0 k = Inr True \<longrightarrow> written k ''line_item_start_date'' v cs1)"
proof (induction ks arbitrary: cs n)
  case Nil
  then show ?case by simp
next
  case (Cons a ks)
  from Cons.prems(2) obtain i where a: "a = SInt i" by auto
  have ks: "\<forall>k\<in>set ks. \<exists>i. k = SInt i" using Cons.prems(2) by simp
  show ?case
  proof (cases "i > 0")
    case False
    from Cons.IH[OF Cons.prems(1) ks, of n] a False show ?thesis by auto
  next
    case True
    from cells_write_int[OF Cons.prems(1), of clk i "''line_item_start_date''" v n]
    obtain cs' n' where
      w: "cells_write clk cs a ''line_item_start_date'' v n = (Returned True, cs', n')"
      and int': "list_all int_cell cs'" using a by auto
    from Cons.IH[OF int' ks, of n'] obtain cs1 n1 where
      l: "cells_loop clk ks v cs' n' = (Returned (), cs1, n1)"
      and wr: "\<forall>k\<in>set ks. py_gt0 k = Inr True \<longrightarrow> written k ''line_item_start_date'' v cs1"
      by auto
    have "written a ''line_item_start_date'' v cs1"
      by (rule written_loop[OF written_after[OF w] l])
    with a True w l wr show ?thesis by auto
  qed
qed

lemma written_cell:
  assumes "written k l v cs"
  shows "\<exists>c\<in>set cs. get_row c = k \<and> cell_label c = Some l \<and> cell_text c = Some v"
proof -
  from assms obtain j c where f: "find_first (matches k l) cs = Some (j, c)"
    and t: "cell_text c = Some v"
    by (auto simp: written_def split: option.splits)
  from find_first_SomeD[OF f] t show ?thesis
    by (auto simp: matches_def intro!: bexI[of _ c])
qed

subsection \<open>Repeated runs\<close>

lemma runs_Suc: "runs clk (Suc k) (d, n) = copy_invoice_date_to_line_items clk d n"
proof (induction k)
  case 0
  then show ?case by (simp add: runs_def)
next
  case (Suc k)
  obtain d1 n1 where c: "copy_invoice_date_to_line_items clk d n = (d1, n1)"
    by (cases "copy_invoice_date_to_line_items clk d n")
  have "runs clk (Suc (Suc k)) (d, n)
        = (\<lambda>(d, n). copy_invoice_date_to_line_items clk d n) (runs clk (Suc k) (d, n))"
    by (simp add: runs_def)
  also have "\<dots> = copy_invoice_date_to_line_items clk d1 n1" using Suc c by simp
  also have "\<dots> = (d1, n1)" using copy_idem[of clk clk d n n1] c by simp
  finally show ?case using c by simp
qed

lemma copy_pair_unique:
  assumes "pair_unique d"
  shows "pair_unique (fst (copy_invoice_date_to_line_items clk d n))"
proof (cases rule: copy_cases[of d clk n])
  case NoField
  with assms show ?thesis by simp
next
  case (NoCells i t)
  with assms show ?thesis by simp
next
  case (Table i t cs r cs1 n1)
  from find_first_SomeD[OF Table(1)] have "t \<in> set (boxes_of (active d) d)"
    by (auto simp: select_boxes_of)
  with assms Table(2) have "distinct (map pair_key cs)"
    by (cases "active d") (auto simp: pair_unique_def list_all_iff get_list_def)
  from cells_loop_distinct[OF Table(4) this] have "distinct (map pair_key cs1)" .
  with assms show ?thesis unfolding Table(6)
    by (auto simp: pair_unique_def boxes_of_upd list_all_iff get_list_def
        dest!: set_update_subset_insert[THEN subsetD])
next
  case Created
  with assms show ?thesis
    by (auto simp: pair_unique_def boxes_of_add_box get_list_def)
qed

subsection \<open>Nothing is removed\<close>

lemma box_kept_refl: "box_kept b b"
  by (simp add: box_kept_def cells_kept_refl)

lemma box_kept_trans:
  assumes "box_kept a b" "box_kept b c"
  shows "box_kept a c"
proof -
  have "c\<lparr>box_cells := box_cells a\<rparr> = (c\<lparr>box_cells := box_cells b\<rparr>)\<lparr>box_cells := box_cells a\<rparr>"
    by simp
  also have "\<dots> = b\<lparr>box_cells := box_cells a\<rparr>" using assms(2) by (simp add: box_kept_def)
  also have "\<dots> = a" using assms(1) by (simp add: box_kept_def)
  finally show ?thesis using assms by (auto simp: box_kept_def intro: cells_kept_trans)
qed

lemma boxes_kept_nth:
  "boxes_kept bs bs' \<longleftrightarrow>
     length bs \<le> length bs' \<and> (\<forall>j<length bs. box_kept (bs ! j) (bs' ! j))"
  by (auto simp: boxes_kept_def list_all2_conv_all_nth)

lemma boxes_kept_refl: "boxes_kept bs bs"
  by (simp add: boxes_kept_nth box_kept_refl)

lemma boxes_kept_trans: "boxes_kept a b \<Longrightarrow> boxes_kept b c \<Longrightarrow> boxes_kept a c"
  unfolding boxes_kept_nth
  by (meson box_kept_trans le_trans less_le_trans)

lemma boxes_kept_append: "boxes_kept bs (bs @ xs)"
  by (simp add: boxes_kept_nth nth_append box_kept_refl)

lemma boxes_kept_update:
  assumes "box_kept (bs ! i) b"
  shows "boxes_kept bs (bs[i := b])"
  unfolding boxes_kept_nth
proof (intro conjI allI impI)
  fix j assume "j < length bs"
  then show "box_kept (bs ! j) (bs[i := b] ! j)"
    using assms by (cases "j = i") (simp_all add: box_kept_refl)
qed simp

lemma doc_kept_refl: "doc_kept d d"
  by (simp add: doc_kept_def boxes_kept_refl)

lemma doc_kept_trans: "doc_kept a b \<Longrightarrow> doc_kept b c \<Longrightarrow> doc_kept a c"
  by (auto simp: doc_kept_def intro: boxes_kept_trans)

lemma doc_kept_add_box: "doc_kept d (add_box d b)"
  by (simp add: doc_kept_def boxes_of_add_box boxes_kept_append boxes_kept_refl)

lemma doc_kept_upd:
  assumes "find_first is_table (select_boxes d) = Some (i, t)"
    "cells_kept (get_list (box_cells t)) cs"
  shows "doc_kept d (upd d i t cs)"
proof -
  from find_first_SomeD[OF assms(1)] have t: "boxes_of (active d) d ! i = t"
    by (simp add: select_boxes_of)
  have "box_kept t (t\<lparr>box_cells := Some cs\<rparr>)"
    using assms(2) by (simp add: box_kept_def get_list_def)
  with t have "boxes_kept (boxes_of (active d) d)
      ((boxes_of (active d) d)[i := t\<lparr>box_cells := Some cs\<rparr>])"
    by (intro boxes_kept_update) simp
  then show ?thesis
    by (cases "active d") (simp_all add: doc_kept_def boxes_of_upd boxes_kept_refl)
qed

lemma fct_created':
  assumes "find_first is_table (select_boxes d) = None" "has_list d"
  shows "find_or_create_table clk d n =
           (Returned ((active d, length (select_boxes d)), new_table (clk n)),
            add_box d (new_table (clk n)), Suc n)"
  using assms
  by (cases "moderated_boxes d"; cases "predicted_boxes d")
     (auto simp: find_or_create_table_def select_boxes_def active_def truthy_def get_list_def
        add_box_def Let_def has_list_def split: if_splits)

lemma fct_key_error:
  assumes "find_first is_table (select_boxes d) = None" "\<not> has_list d"
  shows "find_or_create_table clk d n = (Raised KeyError, d, Suc n)"
  using assms
  by (cases "moderated_boxes d"; cases "predicted_boxes d")
     (auto simp: find_or_create_table_def select_boxes_def truthy_def get_list_def
        Let_def has_list_def split: if_splits)

lemma fct_kept: "doc_kept d (fst (snd (find_or_create_table clk d n)))"
proof (cases "find_first is_table (select_boxes d)")
  case None
  show ?thesis
  proof (cases "has_list d")
    case True
    from fct_created'[OF None True] show ?thesis by (simp add: doc_kept_add_box)
  next
    case False
    from fct_key_error[OF None False] show ?thesis by (simp add: doc_kept_refl)
  qed
next
  case (Some p)
  obtain i t where "p = (i, t)" by (cases p)
  with Some show ?thesis by (simp add: fct_found doc_kept_refl)
qed

lemma select_add_box_list:
  "has_list d \<Longrightarrow> select_boxes (add_box d b) = select_boxes d @ [b]"
  by (cases "moderated_boxes d"; cases "predicted_boxes d")
     (auto simp: select_boxes_def add_box_def truthy_def get_list_def has_list_def)

lemma active_add_box: "has_list d \<Longrightarrow> active (add_box d b) = active d"
  by (cases "moderated_boxes d"; cases "predicted_boxes d")
     (auto simp: active_def add_box_def truthy_def get_list_def has_list_def)

lemma put_box_add_box:
  "has_list d \<Longrightarrow> put_box (active d, length (select_boxes d)) b' (add_box d b) = add_box d b'"
  by (cases "moderated_boxes d"; cases "predicted_boxes d")
     (auto simp: select_boxes_def active_def add_box_def truthy_def get_list_def has_list_def)

lemma set_cell_value_created:
  assumes "find_first is_table (select_boxes d) = None" "has_list d"
  shows "set_cell_value clk d k l v n =
     (Returned True,
      add_box d ((new_table (clk n))\<lparr>box_cells := Some [new_cell l k 0 v (clk (Suc n))]\<rparr>),
      Suc (Suc n))"
  by (simp add: set_cell_value_def fct_created'[OF assms] get_list_def
      put_box_add_box[OF assms(2)] del: put_box.simps)

lemma set_cell_value_key_error:
  assumes "find_first is_table (select_boxes d) = None" "\<not> has_list d"
  shows "set_cell_value clk d k l v n = (Raised KeyError, d, Suc n)"
  by (simp add: set_cell_value_def fct_key_error[OF assms])

lemma set_cell_value_kept: "doc_kept d (fst (snd (set_cell_value clk d k l v n)))"
proof (cases "find_first is_table (select_boxes d)")
  case None
  show ?thesis
  proof (cases "has_list d")
    case True
    from set_cell_value_created[OF None True] show ?thesis by (simp add: doc_kept_add_box)
  next
    case False
    from set_cell_value_key_error[OF None False] show ?thesis by (simp add: doc_kept_refl)
  qed
next
  case (Some p)
  obtain i t where p: "find_first is_table (select_boxes d) = Some (i, t)"
    using Some by (cases p) auto
  obtain r cs1 n1 where w: "cells_write clk (get_list (box_cells t)) k l v n = (r, cs1, n1)"
    by (cases "cells_write clk (get_list (box_cells t)) k l v n") auto
  from doc_kept_upd[OF p cells_write_kept[OF w]] w show ?thesis
    by (cases r) (simp_all add: set_cell_value_table[OF p] doc_kept_refl)
qed

lemma copy_kept: "doc_kept d (fst (copy_invoice_date_to_line_items clk d n))"
proof (cases rule: copy_cases[of d clk n])
  case NoField
  then show ?thesis by (simp add: doc_kept_refl)
next
  case (NoCells i t)
  then show ?thesis by (simp add: doc_kept_refl)
next
  case (Table i t cs r cs1 n1)
  from cells_loop_kept[OF Table(4)] Table(2) have "cells_kept (get_list (box_cells t)) cs1"
    by (simp add: get_list_def)
  from doc_kept_upd[OF Table(1) this] Table(6) show ?thesis by simp
next
  case Created
  then show ?thesis by (simp add: doc_kept_add_box)
qed

lemma handler_kept: "list_all2 doc_kept ds (fst (handler clk ds n))"
proof (induction ds arbitrary: n)
  case Nil
  then show ?case by simp
next
  case (Cons d ds)
  obtain d1 n1 where c: "copy_invoice_date_to_line_items clk d n = (d1, n1)"
    by (cases "copy_invoice_date_to_line_items clk d n")
  obtain ds1 n2 where h: "handler clk ds n1 = (ds1, n2)" by (cases "handler clk ds n1")
  from copy_kept[of d clk n] c Cons.IH[of n1] h show ?case by simp
qed

subsection \<open>The batch\<close>

lemma handler_append:
  "handler clk (xs @ ys) n =
     (case handler clk xs n of (xs', n1) \<Rightarrow>
        case handler clk ys n1 of (ys', n2) \<Rightarrow> (xs' @ ys', n2))"
  by (induction xs arbitrary: n) (auto split: prod.splits)

lemma length_handler: "length (fst (handler clk ds n)) = length ds"
proof (induction ds arbitrary: n)
  case Nil
  then show ?case by simp
next
  case (Cons d ds)
  obtain d1 n1 where c: "copy_invoice_date_to_line_items clk d n = (d1, n1)"
    by (cases "copy_invoice_date_to_line_items clk d n")
  obtain ds1 n2 where h: "handler clk ds n1 = (ds1, n2)" by (cases "handler clk ds n1")
  from Cons.IH[of n1] c h show ?case by simp
qed

section \<open>The claims\<close>

text \<open>
  C1. Let \<open>b\<close> be the first field element labelled \<open>invoice_date\<close> in the
  authoritative list of the document, let its \<open>ocr_text\<close> be a non-empty \<open>v\<close>, and let
  the rows and columns of the table's cells be integers. After the copy operation, every
  row index \<open>r > 0\<close> that some cell of the table had has a cell with the label
  \<open>line_item_start_date\<close> and the text \<open>v\<close>, the value of that field; the cells of
  row 0 are the ones there were, so row 0 gains no such cell.
\<close>

theorem copy_fills_rows:
  assumes fld: "i0 < length (select_boxes d)" "select_boxes d ! i0 = b"
      "is_field ''invoice_date'' b"
      "\<forall>j<i0. \<not> is_field ''invoice_date'' (select_boxes d ! j)"
    and ocr: "box_ocr_text b = Some v" "v \<noteq> []"
    and int: "list_all int_cell (table_cells d)"
  shows "(\<forall>c\<in>set (table_cells d). \<forall>r>0. get_row0 c = SInt r \<longrightarrow>
            (\<exists>c'\<in>set (table_cells (fst (copy_invoice_date_to_line_items clk d n))).
               cell_row c' = Some (SInt r) \<and> cell_label c' = Some ''line_item_start_date'' \<and>
               cell_text c' = Some v)) \<and>
         filter (\<lambda>c. get_row0 c = SInt 0)
           (table_cells (fst (copy_invoice_date_to_line_items clk d n)))
         = filter (\<lambda>c. get_row0 c = SInt 0) (table_cells d)"
proof -
  have "find_first (is_field ''invoice_date'') (select_boxes d) = Some (i0, select_boxes d ! i0)"
    using fld by (intro find_first_SomeI) simp_all
  then have v: "get_field_value d ''invoice_date'' = v"
    using fld(2) ocr(1) by (simp add: get_field_value_def)
  show ?thesis
  proof (cases rule: copy_cases[of d clk n])
    case NoField
    with v ocr(2) show ?thesis by simp
  next
    case (NoCells i t)
    then show ?thesis by (simp add: table_cells_found get_list_def)
  next
    case (Table i t cs r cs1 n1)
    have tc: "table_cells d = cs" using Table(1,2) by (simp add: table_cells_found get_list_def)
    have tc': "table_cells (fst (copy_invoice_date_to_line_items clk d n)) = cs1"
      using Table(1,6) by (simp add: table_cells_upd)
    have keys: "\<forall>k\<in>set (row_keys cs). \<exists>i. k = SInt i"
      using int tc by (auto simp: set_row_keys list_all_iff dest: int_cell_row)
    from cells_loop_int[OF int[unfolded tc] keys, of clk v n] Table(4) v
    have wr: "\<forall>k\<in>set (row_keys cs). py_gt0 k = Inr True \<longrightarrow>
                written k ''line_item_start_date'' v cs1"
      by auto
    have 1: "\<exists>c'\<in>set cs1. cell_row c' = Some (SInt r) \<and>
               cell_label c' = Some ''line_item_start_date'' \<and> cell_text c' = Some v"
      if "c \<in> set cs" "r > 0" "get_row0 c = SInt r" for c r
    proof -
      from that have "SInt r \<in> set (row_keys cs)" by (force simp: set_row_keys)
      with wr that(2) have "written (SInt r) ''line_item_start_date'' v cs1" by auto
      from written_cell[OF this] show ?thesis
        by (auto simp: get_row_def split: option.splits)
    qed
    have 2: "filter (\<lambda>c. get_row0 c = SInt 0) cs1 = filter (\<lambda>c. get_row0 c = SInt 0) cs"
    proof (rule cells_loop_filter[OF _ _ Table(4)])
      fix c :: cell and i :: int
      assume "get_row0 c = SInt 0" "i > 0"
      then show "get_row c \<noteq> SInt i"
        by (auto simp: get_row0_def get_row_def split: option.splits)
    qed simp
    show ?thesis unfolding tc tc' using 1 2 by blast
  next
    case Created
    have "select_boxes d \<noteq> []" by (rule field_nonempty_boxes[OF Created(2)])
    with Created show ?thesis
      by (simp add: table_cells_none table_cells_add_new_table)
  qed
qed

text \<open>
  On the sample invoice: its first element is the field dated 2024-01-15, row 2 has its
  cell with that date, and row 0 holds the same two cells as before.
\<close>

theorem copy_fills_rows_witness:
  "(0::nat) < length (select_boxes sample_doc) \<and>
   select_boxes sample_doc ! 0 = field_box ''invoice_date'' ''2024-01-15'' \<and>
   is_field ''invoice_date'' (field_box ''invoice_date'' ''2024-01-15'') \<and>
   box_ocr_text (field_box ''invoice_date'' ''2024-01-15'') = Some ''2024-01-15'' \<and>
   list_all int_cell (table_cells sample_doc) \<and>
   (\<exists>c'\<in>set (table_cells (fst (copy_invoice_date_to_line_items sample_clock sample_doc 0))).
      cell_row c' = Some (SInt 2) \<and> cell_label c' = Some ''line_item_start_date'' \<and>
      cell_text c' = Some ''2024-01-15'') \<and>
   filter (\<lambda>c. get_row0 c = SInt 0)
     (table_cells (fst (copy_invoice_date_to_line_items sample_clock sample_doc 0)))
   = [plain_cell (SInt 0) (SInt 1) ''item'' ''Item'', rowless_cell ''item'' ''loose'']"
proof -
  have f1: "(0::nat) < length (select_boxes sample_doc)" by code_simp
  have f2: "select_boxes sample_doc ! 0 = field_box ''invoice_date'' ''2024-01-15''"
    by code_simp
  have f3: "is_field ''invoice_date'' (field_box ''invoice_date'' ''2024-01-15'')"
    by code_simp
  have f4: "\<forall>j<(0::nat). \<not> is_field ''invoice_date'' (select_boxes sample_doc ! j)" by simp
  have h1: "box_ocr_text (field_box ''invoice_date'' ''2024-01-15'') = Some ''2024-01-15''"
    by code_simp
  have h2: "''2024-01-15'' \<noteq> []" by simp
  have h3: "list_all int_cell (table_cells sample_doc)" by code_simp
  have m: "plain_cell (SInt 2) (SInt 1) ''item'' ''ink'' \<in> set (table_cells sample_doc)"
    by code_simp
  have r: "get_row0 (plain_cell (SInt 2) (SInt 1) ''item'' ''ink'') = SInt 2" by code_simp
  have f: "filter (\<lambda>c. get_row0 c = SInt 0) (table_cells sample_doc)
    = [plain_cell (SInt 0) (SInt 1) ''item'' ''Item'', rowless_cell ''item'' ''loose'']"
    by code_simp
  from copy_fills_rows[OF f1 f2 f3 f4 h1 h2 h3, of sample_clock 0] m r
  have "\<exists>c'\<in>set (table_cells (fst (copy_invoice_date_to_line_items sample_clock sample_doc 0))).
      cell_row c' = Some (SInt 2) \<and> cell_label c' = Some ''line_item_start_date'' \<and>
      cell_text c' = Some ''2024-01-15''"
    by (metis zero_less_numeral)
  moreover from copy_fills_rows[OF f1 f2 f3 f4 h1 h2 h3, of sample_clock 0] f
  have "filter (\<lambda>c. get_row0 c = SInt 0)
     (table_cells (fst (copy_invoice_date_to_line_items sample_clock sample_doc 0)))
   = [plain_cell (SInt 0) (SInt 1) ''item'' ''Item'', rowless_cell ''item'' ''loose'']"
    by simp
  ultimately show ?thesis using f1 f2 f3 h1 h3 by blast
qed

text \<open>
  C2, as stated, fails in its second half: it asks for at most one cell per (row, label)
  pair on every document. The module never merges cells, so a pair that has two cells
  before a run has two after it: here row 1 has two cells with the label \<open>""\<close>.
\<close>

theorem copy_duplicates_counterexample:
  "\<not> distinct (map pair_key
        (table_cells (fst (copy_invoice_date_to_line_items sample_clock unlabelled_doc 0))))"
  by code_simp

text \<open>
  C2, amended. Running the copy operation any number \<open>k > 0\<close> of times yields the
  state one run yields; a second run changes nothing and reads no clock, whatever the
  outcome of the first. A run never adds a second cell for a (row, label) pair: when no
  element of the document has two cells with the same pair, this still holds after any
  number of runs.
\<close>

theorem copy_idempotent:
  "(0 < k \<longrightarrow> runs clk k (d, n) = copy_invoice_date_to_line_items clk d n) \<and>
   copy_invoice_date_to_line_items clk' (fst (copy_invoice_date_to_line_items clk d n)) m
     = (fst (copy_invoice_date_to_line_items clk d n), m) \<and>
   (pair_unique d \<longrightarrow> pair_unique (fst (runs clk k (d, n))))"
proof (intro conjI impI)
  show "runs clk k (d, n) = copy_invoice_date_to_line_items clk d n" if "0 < k"
    using that runs_Suc[of clk "k - 1" d n] by simp
  show "copy_invoice_date_to_line_items clk' (fst (copy_invoice_date_to_line_items clk d n)) m
     = (fst (copy_invoice_date_to_line_items clk d n), m)"
    by (rule copy_idem)
  show "pair_unique (fst (runs clk k (d, n)))" if "pair_unique d"
  proof (cases k)
    case 0
    with that show ?thesis by (simp add: runs_def)
  next
    case (Suc j)
    with that show ?thesis by (simp add: runs_Suc copy_pair_unique)
  qed
qed

theorem copy_idempotent_witness:
  "pair_unique sample_doc \<and>
   runs sample_clock 3 (sample_doc, 0) = copy_invoice_date_to_line_items sample_clock sample_doc 0 \<and>
   pair_unique (fst (runs sample_clock 3 (sample_doc, 0)))"
proof -
  have h: "pair_unique sample_doc" by code_simp
  have k: "(0::nat) < 3" by simp
  from copy_idempotent[of 3 sample_clock sample_doc 0 sample_clock 0] h k
  have a: "runs sample_clock 3 (sample_doc, 0)
           = copy_invoice_date_to_line_items sample_clock sample_doc 0"
    and b: "pair_unique (fst (runs sample_clock 3 (sample_doc, 0)))"
    by blast+
  show ?thesis by (intro conjI h a b)
qed

text \<open>
  C3. For a document with no table in the authoritative list, \<open>find_or_create_table\<close>
  is to append a new table and return it, creating the list if necessary, also when both
  \<open>moderated_boxes\<close> and \<open>predicted_boxes\<close> are absent. On the document with neither
  key, and on the one whose only key is an empty \<open>moderated_boxes\<close>, the code builds the
  table and then raises \<open>KeyError\<close> at \<open>document["predicted_boxes"]\<close>: nothing is
  appended and nothing returned.
\<close>

theorem find_or_create_table_no_lists:
  "find_or_create_table clk empty_doc n = (Raised KeyError, empty_doc, Suc n) \<and>
   find_or_create_table clk empty_moderated_doc n = (Raised KeyError, empty_moderated_doc, Suc n)"
  by (simp add: find_or_create_table_def empty_doc_def empty_moderated_doc_def select_boxes_def
      truthy_def get_list_def)

text \<open>
  C4. When the authoritative list has no field element labelled \<open>invoice_date\<close>, or the
  first one has an empty \<open>ocr_text\<close> (or none), the copy operation returns the document
  as it was and reads no clock: no table is created, no cell added, nothing modified.
\<close>

theorem copy_without_invoice_date:
  assumes "find_first (is_field ''invoice_date'') (select_boxes d) = None \<or>
           (\<exists>i b. find_first (is_field ''invoice_date'') (select_boxes d) = Some (i, b) \<and>
                  (box_ocr_text b = None \<or> box_ocr_text b = Some []))"
  shows "copy_invoice_date_to_line_items clk d n = (d, n)"
proof -
  from assms have "get_field_value d ''invoice_date'' = []"
    by (auto simp: get_field_value_def)
  then show ?thesis by (rule copy_no_field)
qed

theorem copy_without_invoice_date_witness:
  "copy_invoice_date_to_line_items sample_clock
     (predicted_doc [table_box [plain_cell (SInt 1) (SInt 1) ''item'' ''a'']]) 0
   = (predicted_doc [table_box [plain_cell (SInt 1) (SInt 1) ''item'' ''a'']], 0)
   \<and> copy_invoice_date_to_line_items sample_clock
     (predicted_doc [field_box ''invoice_date'' [],
                     table_box [plain_cell (SInt 1) (SInt 1) ''item'' ''a'']]) 0
   = (predicted_doc [field_box ''invoice_date'' [],
                     table_box [plain_cell (SInt 1) (SInt 1) ''item'' ''a'']], 0)"
proof -
  have 1: "find_first (is_field ''invoice_date'')
             (select_boxes (predicted_doc [table_box [plain_cell (SInt 1) (SInt 1) ''item'' ''a'']]))
           = None"
    by (simp add: predicted_doc_def select_boxes_def truthy_def get_list_def is_field_def
        table_box_def empty_box_def)
  have 2: "find_first (is_field ''invoice_date'')
             (select_boxes (predicted_doc [field_box ''invoice_date'' [],
                table_box [plain_cell (SInt 1) (SInt 1) ''item'' ''a'']]))
           = Some (0, field_box ''invoice_date'' [])
         \<and> box_ocr_text (field_box ''invoice_date'' []) = Some []"
    by (simp add: predicted_doc_def select_boxes_def truthy_def get_list_def is_field_def
        field_box_def empty_box_def)
  show ?thesis
    using copy_without_invoice_date[of "predicted_doc [table_box [plain_cell (SInt 1) (SInt 1) ''item'' ''a'']]"
        sample_clock 0]
      copy_without_invoice_date[of "predicted_doc [field_box ''invoice_date'' [],
                     table_box [plain_cell (SInt 1) (SInt 1) ''item'' ''a'']]" sample_clock 0]
      1 2
    by blast
qed

text \<open>
  C5. \<open>handler\<close> applies the copy operation to every document of the collection, in
  order, and returns as many documents as it was given. Wherever a document stands, the
  result is the documents before it processed, then its own copy result, then the
  documents after it processed; and the copy result is the document as the body of the
  \<open>try\<close> block left it, whether the body returned or raised. So a document that raises
  stops nothing after it.
\<close>

theorem handler_absorbs_failures:
  "handler clk (xs @ d # ys) n =
     (case handler clk xs n of (xs', n1) \<Rightarrow>
        case copy_invoice_date_to_line_items clk d n1 of (d', n2) \<Rightarrow>
          case handler clk ys n2 of (ys', n3) \<Rightarrow> (xs' @ d' # ys', n3)) \<and>
   copy_invoice_date_to_line_items clk d m = snd (copy_body clk d m) \<and>
   length (fst (handler clk ds n)) = length ds"
proof (intro conjI)
  show "handler clk (xs @ d # ys) n =
     (case handler clk xs n of (xs', n1) \<Rightarrow>
        case copy_invoice_date_to_line_items clk d n1 of (d', n2) \<Rightarrow>
          case handler clk ys n2 of (ys', n3) \<Rightarrow> (xs' @ d' # ys', n3))"
    by (simp add: handler_append split: prod.splits)
  show "copy_invoice_date_to_line_items clk d m = snd (copy_body clk d m)"
    by (simp add: copy_invoice_date_to_line_items_def split: prod.splits outcome.splits)
  show "length (fst (handler clk ds n)) = length ds" by (rule length_handler)
qed

text \<open>
  A batch of a malformed document and the sample invoice: the body raises \<open>TypeError\<close>
  on the first, and the second gets its two cells.
\<close>

theorem handler_absorbs_failures_witness:
  "fst (copy_body sample_clock broken_doc 0) = Raised TypeError \<and>
   fst (handler sample_clock [broken_doc, sample_doc] 0) =
     [fst (copy_invoice_date_to_line_items sample_clock broken_doc 0),
      fst (copy_invoice_date_to_line_items sample_clock sample_doc 1)] \<and>
   map (\<lambda>c. (cell_row c, cell_label c, cell_text c))
       (table_cells (fst (handler sample_clock [broken_doc, sample_doc] 0) ! 1)) =
     map (\<lambda>c. (cell_row c, cell_label c, cell_text c)) sample_cells @
       [(Some (SInt 1), Some ''line_item_start_date'', Some ''2024-01-15''),
        (Some (SInt 2), Some ''line_item_start_date'', Some ''2024-01-15'')]"
proof -
  have r: "fst (copy_body sample_clock broken_doc 0) = Raised TypeError" by code_simp
  have n: "snd (copy_invoice_date_to_line_items sample_clock broken_doc 0) = 1" by code_simp
  have c: "map (\<lambda>c. (cell_row c, cell_label c, cell_text c))
       (table_cells (fst (copy_invoice_date_to_line_items sample_clock sample_doc 1))) =
     map (\<lambda>c. (cell_row c, cell_label c, cell_text c)) sample_cells @
       [(Some (SInt 1), Some ''line_item_start_date'', Some ''2024-01-15''),
        (Some (SInt 2), Some ''line_item_start_date'', Some ''2024-01-15'')]"
    by code_simp
  from handler_absorbs_failures[of sample_clock "[]" broken_doc "[sample_doc]" 0]
  have "fst (handler sample_clock [broken_doc, sample_doc] 0) =
     [fst (copy_invoice_date_to_line_items sample_clock broken_doc 0),
      fst (copy_invoice_date_to_line_items sample_clock sample_doc
             (snd (copy_invoice_date_to_line_items sample_clock broken_doc 0)))]"
    by (simp split: prod.splits)
  with r n c show ?thesis by simp
qed

text \<open>
  C6. The copy operation never writes to row 0. In each of the two lists, the cells that
  the row grouping puts under row 0 (a \<open>row\<close> of 0, or no \<open>row\<close> key) are, in document
  order, the same records before and after: none is modified and none is added. This
  holds whatever the document, also when the operation stops on an exception.
\<close>

theorem copy_never_writes_row0:
  "cells_where (\<lambda>c. get_row0 c = SInt 0) w (fst (copy_invoice_date_to_line_items clk d n))
   = cells_where (\<lambda>c. get_row0 c = SInt 0) w d"
proof (rule copy_untouched)
  fix c :: cell and i :: int
  assume "get_row0 c = SInt 0" "i > 0"
  then show "get_row c \<noteq> SInt i"
    by (auto simp: get_row0_def get_row_def split: option.splits)
qed simp

text \<open>
  C7. Let the document have a list to hold a table, the table no cell with the row and
  the label, and let the columns of the row's cells be non-negative integers, as the data
  model has them. Then \<open>set_cell_value\<close> returns \<open>True\<close> and appends one cell to the
  table: it has the row, the label and the value, and its column is 1 when the row has no
  cell, and the largest column of the row's cells plus 1 otherwise.
\<close>

theorem set_cell_value_next_column:
  assumes l: "has_list d"
    and nomatch: "\<forall>c\<in>set (table_cells d). \<not> matches k l c"
    and cols: "\<forall>c\<in>set (table_cells d). get_row c = k \<longrightarrow> (\<exists>i\<ge>0. get_col0 c = SInt i)"
  shows "\<exists>d' n' c. set_cell_value clk d k l v n = (Returned True, d', n') \<and>
           table_cells d' = table_cells d @ [c] \<and>
           cell_row c = Some k \<and> cell_label c = Some l \<and> cell_text c = Some v \<and>
           cell_col c = Some (SInt (if row_cols d k = [] then 1
                                    else Max (set (row_cols d k)) + 1))"
proof (cases "find_first is_table (select_boxes d)")
  case None
  let ?c = "new_cell l k 0 v (clk (Suc n))"
  let ?t = "(new_table (clk n))\<lparr>box_cells := Some [?c]\<rparr>"
  have "find_first is_table (select_boxes (add_box d ?t)) = Some (length (select_boxes d), ?t)"
    using None by (simp add: select_add_box_list[OF l] find_first_append)
  then have "table_cells (add_box d ?t) = [?c]"
    by (simp add: table_cells_found get_list_def)
  moreover have "table_cells d = []" using None by (simp add: table_cells_none)
  ultimately show ?thesis
    using set_cell_value_created[OF None l, of clk k l v n] by (simp add: row_cols_def)
next
  case (Some p)
  obtain i t where p: "find_first is_table (select_boxes d) = Some (i, t)"
    using Some by (cases p) auto
  let ?cs = "get_list (box_cells t)"
  have tc: "table_cells d = ?cs" by (rule table_cells_found[OF p])
  have f: "find_first (matches k l) ?cs = None"
    using nomatch tc by (simp add: find_first_None_iff)
  have "\<forall>c\<in>set ?cs. get_row c = k \<longrightarrow> (\<exists>i. get_col0 c = SInt i)"
    using cols tc by auto
  from max_col_loop_int[OF this, of 0]
  have m: "max_col_loop ?cs k 0 = Inr (fold max (row_cols d k) 0)"
    by (simp add: row_cols_def tc)
  have "\<forall>x\<in>set (row_cols d k). 0 \<le> x"
    using cols by (auto simp: row_cols_def col_int_def)
  from fold_max_nonneg[OF this]
  have fm: "fold max (row_cols d k) 0 + 1 =
            (if row_cols d k = [] then 1 else Max (set (row_cols d k)) + 1)"
    by simp
  let ?c = "new_cell l k (fold max (row_cols d k) 0) v (clk n)"
  have w: "cells_write clk ?cs k l v n = (Returned True, ?cs @ [?c], Suc n)"
    using f m by (simp add: cells_write_def)
  have "set_cell_value clk d k l v n = (Returned True, upd d i t (?cs @ [?c]), Suc n)"
    using w by (simp add: set_cell_value_table[OF p])
  moreover have "table_cells (upd d i t (?cs @ [?c])) = table_cells d @ [?c]"
    by (simp add: table_cells_upd[OF p] tc)
  moreover have "cell_col ?c = Some (SInt (if row_cols d k = [] then 1
                                    else Max (set (row_cols d k)) + 1))"
    using fm by simp
  ultimately show ?thesis by auto
qed

text \<open>
  On the sample invoice, row 1 has cells at columns 1 and 2 and gets column 3; row 7 has
  no cell and gets column 1.
\<close>

theorem set_cell_value_next_column_witness:
  "has_list sample_doc \<and> row_cols sample_doc (SInt 1) = [1, 2] \<and>
   (\<exists>d' n' c. set_cell_value sample_clock sample_doc (SInt 1) ''line_item_start_date''
                 ''2024-01-15'' 0 = (Returned True, d', n') \<and>
       table_cells d' = table_cells sample_doc @ [c] \<and> cell_col c = Some (SInt 3)) \<and>
   row_cols sample_doc (SInt 7) = [] \<and>
   (\<exists>d' n' c. set_cell_value sample_clock sample_doc (SInt 7) ''line_item_start_date''
                 ''2024-01-15'' 0 = (Returned True, d', n') \<and>
       table_cells d' = table_cells sample_doc @ [c] \<and> cell_col c = Some (SInt 1))"
proof -
  have l: "has_list sample_doc" by code_simp
  have n1: "\<forall>c\<in>set (table_cells sample_doc). \<not> matches (SInt 1) ''line_item_start_date'' c"
    by code_simp
  have c1: "\<forall>c\<in>set (table_cells sample_doc). get_row c = SInt 1 \<longrightarrow> (\<exists>i\<ge>0. get_col0 c = SInt i)"
    by (simp add: sample_doc_def sample_cells_def table_cells_def the_table_def predicted_doc_def
        select_boxes_def truthy_def get_list_def is_table_def field_box_def table_box_def
        empty_box_def get_row_def get_col0_def plain_cell_def rowless_cell_def)
  have r1: "row_cols sample_doc (SInt 1) = [1, 2]" by code_simp
  have n7: "\<forall>c\<in>set (table_cells sample_doc). \<not> matches (SInt 7) ''line_item_start_date'' c"
    by code_simp
  have c7: "\<forall>c\<in>set (table_cells sample_doc). get_row c = SInt 7 \<longrightarrow> (\<exists>i\<ge>0. get_col0 c = SInt i)"
    by (simp add: sample_doc_def sample_cells_def table_cells_def the_table_def predicted_doc_def
        select_boxes_def truthy_def get_list_def is_table_def field_box_def table_box_def
        empty_box_def get_row_def get_col0_def plain_cell_def rowless_cell_def)
  have r7: "row_cols sample_doc (SInt 7) = []" by code_simp
  from set_cell_value_next_column[OF l n1 c1, of sample_clock "''2024-01-15''" 0]
    set_cell_value_next_column[OF l n7 c7, of sample_clock "''2024-01-15''" 0]
    l r1 r7
  show ?thesis by simp blast
qed

text \<open>
  C8. \<open>group_cells_by_row\<close> returns the empty mapping for \<open>None\<close>, for the empty
  dictionary and for a table without the key \<open>cells\<close>. For a table with cells, no key
  occurs twice, the keys are exactly the row indices of the cells (\<open>cell.get("row", 0)\<close>),
  and every key is bound to the cells of that row in the order of the table, never to an
  empty list. The function is total on the model's tables: no input raises.
\<close>

theorem group_cells_by_row_spec:
  "group_cells_by_row None = [] \<and>
   group_cells_by_row (Some empty_box) = [] \<and>
   (box_cells t = None \<longrightarrow> group_cells_by_row (Some t) = []) \<and>
   (box_cells t = Some cs \<longrightarrow>
      distinct (map fst (group_cells_by_row (Some t))) \<and>
      set (map fst (group_cells_by_row (Some t))) = get_row0 ` set cs \<and>
      (\<forall>k l. (k, l) \<in> set (group_cells_by_row (Some t)) \<longrightarrow>
         l = filter (\<lambda>c. get_row0 c = k) cs \<and> l \<noteq> []))"
proof (intro conjI impI allI)
  show "group_cells_by_row None = []" by (simp add: group_cells_by_row_def)
  show "group_cells_by_row (Some empty_box) = []" by (simp add: group_cells_by_row_def)
  show "group_cells_by_row (Some t) = []" if "box_cells t = None"
    using that by (simp add: group_cells_by_row_def)
next
  assume cs: "box_cells t = Some cs"
  then have "t \<noteq> empty_box" by (auto simp: empty_box_def)
  with cs have g: "group_cells_by_row (Some t) = group_loop cs []"
    by (simp add: group_cells_by_row_def get_list_def)
  show "distinct (map fst (group_cells_by_row (Some t)))"
    unfolding g by (simp add: distinct_group_loop)
  show "set (map fst (group_cells_by_row (Some t))) = get_row0 ` set cs"
    unfolding g using set_row_keys[of cs] by (simp add: row_keys_def)
  fix k l assume "(k, l) \<in> set (group_cells_by_row (Some t))"
  then have "(k, l) \<in> set (group_loop cs [])" unfolding g .
  from group_loop_entry[OF this]
  show "l = filter (\<lambda>c. get_row0 c = k) cs" "l \<noteq> []" by blast+
qed

theorem group_cells_by_row_spec_witness:
  "box_cells (table_box sample_cells) = Some sample_cells \<and>
   group_cells_by_row (Some (table_box sample_cells)) =
     [(SInt 0, [plain_cell (SInt 0) (SInt 1) ''item'' ''Item'', rowless_cell ''item'' ''loose'']),
      (SInt 1, [plain_cell (SInt 1) (SInt 1) ''item'' ''pen'',
                plain_cell (SInt 1) (SInt 2) ''qty'' ''2'']),
      (SInt 2, [plain_cell (SInt 2) (SInt 1) ''item'' ''ink''])] \<and>
   get_row0 ` set sample_cells = {SInt 0, SInt 1, SInt 2} \<and>
   distinct (map fst (group_cells_by_row (Some (table_box sample_cells)))) \<and>
   box_cells (field_box ''invoice_date'' ''2024-01-15'') = None \<and>
   group_cells_by_row (Some (field_box ''invoice_date'' ''2024-01-15'')) = []"
proof -
  have h1: "box_cells (table_box sample_cells) = Some sample_cells" by code_simp
  have h2: "box_cells (field_box ''invoice_date'' ''2024-01-15'') = None" by code_simp
  have g: "group_cells_by_row (Some (table_box sample_cells)) =
     [(SInt 0, [plain_cell (SInt 0) (SInt 1) ''item'' ''Item'', rowless_cell ''item'' ''loose'']),
      (SInt 1, [plain_cell (SInt 1) (SInt 1) ''item'' ''pen'',
                plain_cell (SInt 1) (SInt 2) ''qty'' ''2'']),
      (SInt 2, [plain_cell (SInt 2) (SInt 1) ''item'' ''ink''])]"
    by code_simp
  from group_cells_by_row_spec[of "table_box sample_cells" sample_cells]
    group_cells_by_row_spec[of "field_box ''invoice_date'' ''2024-01-15''"] h1 h2 g
  show ?thesis by auto
qed

text \<open>
  C9. When the table has a cell with the row and the label, \<open>set_cell_value\<close> returns
  \<open>True\<close>, reads no clock, and the document differs in one place only: the text of the
  first such cell. Every other field of that cell, every other cell, every other key of
  the table and every other element are as before. Besides, no function of the module
  removes anything: after \<open>find_or_create_table\<close>, \<open>set_cell_value\<close>, the copy operation
  and \<open>handler\<close>, every element and every cell is where it was.
\<close>

theorem set_cell_value_updates_in_place:
  "(find_first is_table (select_boxes d) = Some (i, t) \<and>
    find_first (matches k l) (get_list (box_cells t)) = Some (j, c) \<longrightarrow>
      set_cell_value clk d k l v n =
        (Returned True,
         put_box (active d, i)
           (t\<lparr>box_cells := Some ((get_list (box_cells t))[j := c\<lparr>cell_text := Some v\<rparr>])\<rparr>) d,
         n) \<and>
      (\<forall>j'<j. \<not> matches k l (get_list (box_cells t) ! j'))) \<and>
   doc_kept d (fst (snd (find_or_create_table clk d n))) \<and>
   doc_kept d (fst (snd (set_cell_value clk d k l v n))) \<and>
   doc_kept d (fst (copy_invoice_date_to_line_items clk d n)) \<and>
   list_all2 doc_kept ds (fst (handler clk ds n))"
proof (intro conjI impI)
  assume a: "find_first is_table (select_boxes d) = Some (i, t) \<and>
    find_first (matches k l) (get_list (box_cells t)) = Some (j, c)"
  then show "set_cell_value clk d k l v n =
        (Returned True,
         put_box (active d, i)
           (t\<lparr>box_cells := Some ((get_list (box_cells t))[j := c\<lparr>cell_text := Some v\<rparr>])\<rparr>) d,
         n)"
    by (simp add: set_cell_value_def fct_found del: put_box.simps)
  from a find_first_SomeD[of "matches k l" "get_list (box_cells t)" j c]
  show "\<forall>j'<j. \<not> matches k l (get_list (box_cells t) ! j')" by simp
qed (rule fct_kept set_cell_value_kept copy_kept handler_kept)+

theorem set_cell_value_updates_in_place_witness:
  "find_first is_table (select_boxes dated_doc) =
     Some (1, table_box [plain_cell (SInt 1) (SInt 1) ''item'' ''pen'',
                plain_cell (SInt 1) (SInt 2) ''line_item_start_date'' ''2023-12-31'']) \<and>
   find_first (matches (SInt 1) ''line_item_start_date'')
     [plain_cell (SInt 1) (SInt 1) ''item'' ''pen'',
      plain_cell (SInt 1) (SInt 2) ''line_item_start_date'' ''2023-12-31'']
     = Some (1, plain_cell (SInt 1) (SInt 2) ''line_item_start_date'' ''2023-12-31'') \<and>
   set_cell_value sample_clock dated_doc (SInt 1) ''line_item_start_date'' ''2024-01-15'' 0 =
     (Returned True,
      predicted_doc
        [field_box ''invoice_date'' ''2024-01-15'',
         table_box
           [plain_cell (SInt 1) (SInt 1) ''item'' ''pen'',
            plain_cell (SInt 1) (SInt 2) ''line_item_start_date'' ''2024-01-15'']],
      0)"
proof -
  let ?cs = "[plain_cell (SInt 1) (SInt 1) ''item'' ''pen'',
      plain_cell (SInt 1) (SInt 2) ''line_item_start_date'' ''2023-12-31'']"
  have h1: "find_first is_table (select_boxes dated_doc) = Some (1, table_box ?cs)"
    by code_simp
  have h2: "find_first (matches (SInt 1) ''line_item_start_date'') (get_list (box_cells (table_box ?cs)))
     = Some (1, plain_cell (SInt 1) (SInt 2) ''line_item_start_date'' ''2023-12-31'')"
    by code_simp
  have h2': "find_first (matches (SInt 1) ''line_item_start_date'') ?cs
     = Some (1, plain_cell (SInt 1) (SInt 2) ''line_item_start_date'' ''2023-12-31'')"
    by code_simp
  have e: "put_box (active dated_doc, 1)
           ((table_box ?cs)\<lparr>box_cells := Some ((get_list (box_cells (table_box ?cs)))
              [1 := (plain_cell (SInt 1) (SInt 2) ''line_item_start_date'' ''2023-12-31'')
                      \<lparr>cell_text := Some ''2024-01-15''\<rparr>])\<rparr>) dated_doc
     = predicted_doc
        [field_box ''invoice_date'' ''2024-01-15'',
         table_box
           [plain_cell (SInt 1) (SInt 1) ''item'' ''pen'',
            plain_cell (SInt 1) (SInt 2) ''line_item_start_date'' ''2024-01-15'']]"
    by code_simp
  from set_cell_value_updates_in_place[of dated_doc 1 "table_box ?cs" "SInt 1"
      "''line_item_start_date''" 1
      "plain_cell (SInt 1) (SInt 2) ''line_item_start_date'' ''2023-12-31''"
      sample_clock "''2024-01-15''" 0 "[]"] h1 h2 h2' e
  show ?thesis by simp
qed

text \<open>
  C10. A cell of the table that has no \<open>row\<close> key is grouped under row 0. Every
  enumerated key other than 0 is the \<open>row\<close> of some cell, so such a cell brings no row
  index above 0. The copy operation leaves the cells without a \<open>row\<close> key as they are,
  in both lists; and when no cell of the table has a \<open>row\<close> key, it leaves the whole
  document as it is.
\<close>

theorem rowless_cell_is_header:
  assumes t: "find_first is_table (select_boxes d) = Some (i, t)" "box_cells t = Some cs"
    and c: "c \<in> set cs" "cell_row c = None"
  shows "(\<exists>l. (SInt 0, l) \<in> set (group_cells_by_row (Some t)) \<and> c \<in> set l) \<and>
         (\<forall>k\<in>set (map fst (group_cells_by_row (Some t))).
            k = SInt 0 \<or> (\<exists>c'\<in>set cs. cell_row c' = Some k)) \<and>
         cells_where (\<lambda>c. cell_row c = None) w (fst (copy_invoice_date_to_line_items clk d n))
           = cells_where (\<lambda>c. cell_row c = None) w d \<and>
         ((\<forall>c'\<in>set cs. cell_row c' = None) \<longrightarrow>
            copy_invoice_date_to_line_items clk d n = (d, n))"
proof (intro conjI impI)
  have "t \<noteq> empty_box" using t(2) by (auto simp: empty_box_def)
  with t(2) have g: "group_cells_by_row (Some t) = group_loop cs []"
    by (simp add: group_cells_by_row_def get_list_def)
  have d: "distinct (map fst (group_loop cs []))" by (simp add: distinct_group_loop)
  have r0: "get_row0 c = SInt 0" using c(2) by (simp add: get_row0_def)
  have "map_of (group_loop cs []) (SInt 0) = Some (filter (\<lambda>c. get_row0 c = SInt 0) cs)"
    using c(1) r0 by (subst group_loop_lookup) force+
  then have "(SInt 0, filter (\<lambda>c. get_row0 c = SInt 0) cs) \<in> set (group_loop cs [])"
    by (rule map_of_SomeD)
  moreover have "c \<in> set (filter (\<lambda>c. get_row0 c = SInt 0) cs)" using c(1) r0 by simp
  ultimately show "\<exists>l. (SInt 0, l) \<in> set (group_cells_by_row (Some t)) \<and> c \<in> set l"
    unfolding g by blast
  have keys: "set (map fst (group_cells_by_row (Some t))) = get_row0 ` set cs"
    unfolding g using set_row_keys[of cs] by (simp add: row_keys_def)
  show "\<forall>k\<in>set (map fst (group_cells_by_row (Some t))).
            k = SInt 0 \<or> (\<exists>c'\<in>set cs. cell_row c' = Some k)"
    unfolding keys by (auto simp: get_row0_def split: option.splits)
  show "cells_where (\<lambda>c. cell_row c = None) w (fst (copy_invoice_date_to_line_items clk d n))
           = cells_where (\<lambda>c. cell_row c = None) w d"
  proof (rule copy_untouched)
    fix c :: cell and i :: int
    assume "cell_row c = None"
    then show "get_row c \<noteq> SInt i" by (simp add: get_row_def)
  qed simp
  assume all: "\<forall>c'\<in>set cs. cell_row c' = None"
  then have "\<forall>k\<in>set (row_keys cs). py_gt0 k = Inr False"
    by (auto simp: set_row_keys get_row0_def)
  then have l: "\<And>v. cells_loop clk (row_keys cs) v cs n = (Returned (), cs, n)"
    by (rule cells_loop_no_positive)
  show "copy_invoice_date_to_line_items clk d n = (d, n)"
  proof (cases "get_field_value d ''invoice_date'' = []")
    case True
    then show ?thesis by (rule copy_no_field)
  next
    case False
    from copy_table[OF refl False t, of clk n] l upd_same[OF t] show ?thesis by simp
  qed
qed

theorem rowless_cell_is_header_witness:
  "find_first is_table (select_boxes sample_doc) = Some (1, table_box sample_cells) \<and>
   box_cells (table_box sample_cells) = Some sample_cells \<and>
   rowless_cell ''item'' ''loose'' \<in> set sample_cells \<and>
   cell_row (rowless_cell ''item'' ''loose'') = None \<and>
   (\<exists>l. (SInt 0, l) \<in> set (group_cells_by_row (Some (table_box sample_cells))) \<and>
        rowless_cell ''item'' ''loose'' \<in> set l) \<and>
   cells_where (\<lambda>c. cell_row c = None) Predicted
     (fst (copy_invoice_date_to_line_items sample_clock sample_doc 0))
     = [rowless_cell ''item'' ''loose'']"
proof -
  have h1: "find_first is_table (select_boxes sample_doc) = Some (1, table_box sample_cells)"
    by code_simp
  have h2: "box_cells (table_box sample_cells) = Some sample_cells" by code_simp
  have h3: "rowless_cell ''item'' ''loose'' \<in> set sample_cells" by code_simp
  have h4: "cell_row (rowless_cell ''item'' ''loose'') = None" by code_simp
  have e: "cells_where (\<lambda>c. cell_row c = None) Predicted sample_doc
           = [rowless_cell ''item'' ''loose'']"
    by code_simp
  from rowless_cell_is_header[OF h1 h2 h3 h4, of Predicted sample_clock 0] h1 h2 h3 h4 e
  show ?thesis by simp
qed

end
